theory Spec2Isabelle
  imports Main
begin

section \<open>Source text and the Python runtime\<close>

text \<open>
  A Python \<open>str\<close> is a sequence of Unicode code points. A code point is a natural
  number here, and a string a list of them; \<open>ascii\<close> turns a literal of the theory
  into such a string.
\<close>

type_synonym pychar = nat
type_synonym pystr = "pychar list"

definition ascii :: "string \<Rightarrow> pystr" where
  "ascii s = map of_char s"

text \<open>
  What \<open>app.py\<close> takes from the Python runtime and does not define itself: the
  Unicode tables behind \<open>\w\<close> and \<open>\d\<close> of module \<open>re\<close> for the code points from
  128 on (\<open>Py_UNICODE_ISALNUM\<close>, \<open>Py_UNICODE_ISDECIMAL\<close>), and the built-in \<open>int\<close> on
  every string that is not a plain run of at most 640 ASCII digits (signs, blanks,
  underscores, other scripts' digits, the runtime's limit on the number of digits):
  \<open>None\<close> is its \<open>ValueError\<close>. And the room that the interpreter's recursion limit
  (\<open>sys.getrecursionlimit()\<close>, 1000 unless it was changed) leaves to the parser:
  \<open>recursion_room\<close> is the number of calls that may be nested inside the call of
  \<open>parse_program\<close>, which depends on how deep the caller of \<open>parse_tokens\<close> already is.
  They are parameters of the model.
\<close>

record runtime =
  uni_isalnum :: "pychar \<Rightarrow> bool"
  uni_isdecimal :: "pychar \<Rightarrow> bool"
  int_other :: "pystr \<Rightarrow> int option"
  recursion_room :: nat

definition ascii_digit :: "pychar \<Rightarrow> bool" where
  "ascii_digit c = (48 \<le> c \<and> c \<le> 57)"

definition ascii_letter :: "pychar \<Rightarrow> bool" where
  "ascii_letter c = ((65 \<le> c \<and> c \<le> 90) \<or> (97 \<le> c \<and> c \<le> 122))"

text \<open>\<open>\w\<close> and \<open>\d\<close> of a \<open>str\<close> pattern.\<close>

definition is_word :: "runtime \<Rightarrow> pychar \<Rightarrow> bool" where
  "is_word R c =
     (if c < 128 then ascii_digit c \<or> ascii_letter c \<or> c = 95
      else uni_isalnum R c)"

definition is_digit :: "runtime \<Rightarrow> pychar \<Rightarrow> bool" where
  "is_digit R c = (if c < 128 then ascii_digit c else uni_isdecimal R c)"

text \<open>The built-in \<open>int\<close> on a string, base ten.\<close>

definition decimal_value :: "pystr \<Rightarrow> int" where
  "decimal_value s = foldl (\<lambda>acc c. 10 * acc + (int c - 48)) 0 s"

definition py_int :: "runtime \<Rightarrow> pystr \<Rightarrow> int option" where
  "py_int R s =
     (if s \<noteq> [] \<and> list_all ascii_digit s \<and> length s \<le> 640
      then Some (decimal_value s)
      else int_other R s)"

section \<open>The master regular expression\<close>

text \<open>
  A pattern is modelled by its matcher: given the whole text and a start offset it
  returns the end offset of the match of that pattern at that offset, as Python's
  backtracking matcher finds it, or \<open>None\<close>. The text before the offset is visible
  to \<open>\b\<close>, as it is to \<open>Pattern.match(string, pos)\<close>.
\<close>

type_synonym matcher = "runtime \<Rightarrow> pystr \<Rightarrow> nat \<Rightarrow> nat option"

definition slice :: "pystr \<Rightarrow> nat \<Rightarrow> nat \<Rightarrow> pystr" where
  "slice code a b = take (b - a) (drop a code)"

text \<open>\<open>\b\<close>: exactly one of the characters before and at the offset is a word character.\<close>

definition at_boundary :: "runtime \<Rightarrow> pystr \<Rightarrow> nat \<Rightarrow> bool" where
  "at_boundary R code p =
     (let thatp = (0 < p \<and> p - 1 < length code \<and> is_word R (code ! (p - 1)));
          thisp = (p < length code \<and> is_word R (code ! p))
      in thisp \<noteq> thatp)"

text \<open>A literal, one character of a class, and a greedy run of a class.\<close>

definition match_lit :: "pystr \<Rightarrow> pystr \<Rightarrow> nat \<Rightarrow> nat option" where
  "match_lit lit code p =
     (if take (length lit) (drop p code) = lit then Some (p + length lit) else None)"

definition match_class :: "(pychar \<Rightarrow> bool) \<Rightarrow> pystr \<Rightarrow> nat \<Rightarrow> nat option" where
  "match_class P code p =
     (if p < length code \<and> P (code ! p) then Some (p + 1) else None)"

definition run_length :: "(pychar \<Rightarrow> bool) \<Rightarrow> pystr \<Rightarrow> nat \<Rightarrow> nat" where
  "run_length P code p = length (takeWhile P (drop p code))"

text \<open>Alternation \<open>a|b|c\<close>: the first alternative that matches.\<close>

fun alt :: "nat option list \<Rightarrow> nat option" where
  "alt [] = None"
| "alt (Some e # rs) = Some e"
| "alt (None # rs) = alt rs"

definition m_COMMENT :: matcher where
  "m_COMMENT R code p =
     (case match_lit (ascii ''//'') code p of
        None \<Rightarrow> None
      | Some q \<Rightarrow> Some (q + run_length (\<lambda>c. c \<noteq> 10) code q))"

definition m_NEWLINE :: matcher where
  "m_NEWLINE R code p = match_lit [10] code p"

definition m_WHITESPACE :: matcher where
  "m_WHITESPACE R code p =
     (let n = run_length (\<lambda>c. c = 32 \<or> c = 9 \<or> c = 13) code p
      in if 0 < n then Some (p + n) else None)"

definition m_ARROW :: matcher where
  "m_ARROW R code p = match_lit (ascii ''->'') code p"

definition m_ASSIGN :: matcher where
  "m_ASSIGN R code p = match_lit (ascii '':='') code p"

definition m_OP :: matcher where
  "m_OP R code p =
     alt [match_lit (ascii ''=='') code p,
          match_lit (ascii ''<='') code p,
          match_lit (ascii ''>='') code p,
          match_lit (ascii ''!='') code p,
          match_class (\<lambda>c. c \<in> set (ascii ''+-*/<>'')) code p]"

definition m_LPAREN :: matcher where
  "m_LPAREN R code p = match_lit (ascii ''('') code p"

definition m_RPAREN :: matcher where
  "m_RPAREN R code p = match_lit (ascii '')'') code p"

definition m_SEMI :: matcher where
  "m_SEMI R code p = match_lit (ascii '';'') code p"

definition m_BAR :: matcher where
  "m_BAR R code p = match_lit (ascii ''|'') code p"

text \<open>
  \<open>\b(if|then|else|fi|do|od)\b\<close>: when the closing \<open>\b\<close> fails after one word the
  matcher backtracks into the next word of the group.
\<close>

definition KEYWORDS :: "pystr list" where
  "KEYWORDS = map ascii [''if'', ''then'', ''else'', ''fi'', ''do'', ''od'']"

definition m_KEYWORD :: matcher where
  "m_KEYWORD R code p =
     (if at_boundary R code p then
        alt (map (\<lambda>kw. case match_lit kw code p of
                          None \<Rightarrow> None
                        | Some q \<Rightarrow> if at_boundary R code q then Some q else None)
                 KEYWORDS)
      else None)"

text \<open>
  \<open>\b\d+\b\<close>: the greedy run of digits first, then, while the closing \<open>\b\<close> fails,
  one digit fewer, down to one digit.
\<close>

definition m_NUMBER :: matcher where
  "m_NUMBER R code p =
     (if at_boundary R code p then
        (let n = run_length (is_digit R) code p
         in alt (map (\<lambda>k. if at_boundary R code (p + k) then Some (p + k) else None)
                     (rev [1..<Suc n])))
      else None)"

definition m_IDENT :: matcher where
  "m_IDENT R code p =
     (case match_class (\<lambda>c. ascii_letter c \<or> c = 95) code p of
        None \<Rightarrow> None
      | Some q \<Rightarrow>
          Some (q + run_length (\<lambda>c. ascii_letter c \<or> ascii_digit c \<or> c = 95) code q))"

text \<open>\<open>.\<close> without \<open>re.DOTALL\<close>: any character but the newline.\<close>

definition m_UNKNOWN :: matcher where
  "m_UNKNOWN R code p = match_class (\<lambda>c. c \<noteq> 10) code p"

definition TOKEN_SPECS :: "(pystr \<times> matcher) list" where
  "TOKEN_SPECS =
     [(ascii ''COMMENT'', m_COMMENT),
      (ascii ''NEWLINE'', m_NEWLINE),
      (ascii ''WHITESPACE'', m_WHITESPACE),
      (ascii ''ARROW'', m_ARROW),
      (ascii ''ASSIGN'', m_ASSIGN),
      (ascii ''OP'', m_OP),
      (ascii ''LPAREN'', m_LPAREN),
      (ascii ''RPAREN'', m_RPAREN),
      (ascii ''SEMI'', m_SEMI),
      (ascii ''BAR'', m_BAR),
      (ascii ''KEYWORD'', m_KEYWORD),
      (ascii ''NUMBER'', m_NUMBER),
      (ascii ''IDENT'', m_IDENT),
      (ascii ''UNKNOWN'', m_UNKNOWN)]"

text \<open>
  \<open>master_regex.match(code, pos)\<close>: the named groups joined by \<open>|\<close>, so the first
  group of the list that matches at the offset wins; the result is \<open>m.lastgroup\<close> and
  \<open>m.end()\<close>.
\<close>

fun first_group :: "(pystr \<times> matcher) list \<Rightarrow> runtime \<Rightarrow> pystr \<Rightarrow> nat \<Rightarrow> (pystr \<times> nat) option" where
  "first_group [] R code p = None"
| "first_group ((name, m) # specs) R code p =
     (case m R code p of
        Some e \<Rightarrow> Some (name, e)
      | None \<Rightarrow> first_group specs R code p)"

definition master_regex :: "runtime \<Rightarrow> pystr \<Rightarrow> nat \<Rightarrow> (pystr \<times> nat) option" where
  "master_regex R code p = first_group TOKEN_SPECS R code p"

subsection \<open>Every match consumes at least one character and stays inside the text\<close>

definition advances :: "matcher \<Rightarrow> bool" where
  "advances m = (\<forall>R code p e. m R code p = Some e \<longrightarrow> p < e \<and> e \<le> length code)"

lemma match_lit_end:
  assumes "match_lit lit code p = Some e" and "lit \<noteq> []"
  shows "p < e \<and> e \<le> length code"
proof -
  from assms(1) have t: "take (length lit) (drop p code) = lit" and e: "e = p + length lit"
    by (auto simp: match_lit_def split: if_splits)
  from t have "length (take (length lit) (drop p code)) = length lit" by simp
  then have "length lit \<le> length code - p" by simp
  with assms(2) e show ?thesis by (cases lit) auto
qed

lemma match_class_end: "match_class P code p = Some e \<Longrightarrow> p < e \<and> e \<le> length code"
  by (auto simp: match_class_def split: if_splits)

lemma run_length_le: "p + run_length P code p \<le> max p (length code)"
proof -
  have "length (takeWhile P (drop p code)) \<le> length (drop p code)"
    by (rule length_takeWhile_le)
  then show ?thesis by (simp add: run_length_def)
qed

lemma alt_Some: "alt rs = Some e \<Longrightarrow> Some e \<in> set rs"
  by (induction rs rule: alt.induct) auto

lemma ascii_nonempty: "ascii (c # cs) \<noteq> []"
  by (simp add: ascii_def)

lemma advances_COMMENT: "advances m_COMMENT"
  unfolding advances_def
proof (intro allI impI)
  fix R code p e assume "m_COMMENT R code p = Some e"
  then obtain q where q: "match_lit (ascii ''//'') code p = Some q"
    and e: "e = q + run_length (\<lambda>c. c \<noteq> 10) code q"
    by (auto simp: m_COMMENT_def split: option.splits)
  from match_lit_end [OF q] have "p < q \<and> q \<le> length code" by (simp add: ascii_def)
  moreover have "q + run_length (\<lambda>c. c \<noteq> 10) code q \<le> max q (length code)"
    by (rule run_length_le)
  ultimately show "p < e \<and> e \<le> length code" using e by auto
qed

lemma advances_lit: "lit \<noteq> [] \<Longrightarrow> advances (\<lambda>R. match_lit lit)"
  unfolding advances_def using match_lit_end by blast

lemma advances_NEWLINE: "advances m_NEWLINE"
  using advances_lit [of "[10]"] by (simp add: advances_def m_NEWLINE_def)

lemma advances_WHITESPACE: "advances m_WHITESPACE"
  unfolding advances_def
proof (intro allI impI)
  fix R code p e assume a: "m_WHITESPACE R code p = Some e"
  let ?n = "run_length (\<lambda>c. c = 32 \<or> c = 9 \<or> c = 13) code p"
  from a have n: "0 < ?n" and e: "e = p + ?n"
    by (auto simp: m_WHITESPACE_def Let_def split: if_splits)
  have "p + ?n \<le> max p (length code)" by (rule run_length_le)
  with n e show "p < e \<and> e \<le> length code" by auto
qed

lemma advances_ARROW: "advances m_ARROW"
  using advances_lit [of "ascii ''->''"] by (simp add: advances_def m_ARROW_def ascii_def)

lemma advances_ASSIGN: "advances m_ASSIGN"
  using advances_lit [of "ascii '':=''"] by (simp add: advances_def m_ASSIGN_def ascii_def)

lemma advances_OP: "advances m_OP"
  unfolding advances_def
proof (intro allI impI)
  fix R code p e assume "m_OP R code p = Some e"
  from alt_Some [OF this [unfolded m_OP_def]]
  consider "match_lit (ascii ''=='') code p = Some e"
    | "match_lit (ascii ''<='') code p = Some e"
    | "match_lit (ascii ''>='') code p = Some e"
    | "match_lit (ascii ''!='') code p = Some e"
    | "match_class (\<lambda>c. c \<in> set (ascii ''+-*/<>'')) code p = Some e"
    by auto
  then show "p < e \<and> e \<le> length code"
  proof cases
    case 5
    then show ?thesis by (rule match_class_end)
  qed (erule match_lit_end, simp add: ascii_def)+
qed

lemma advances_LPAREN: "advances m_LPAREN"
  using advances_lit [of "ascii ''(''"] by (simp add: advances_def m_LPAREN_def ascii_def)

lemma advances_RPAREN: "advances m_RPAREN"
  using advances_lit [of "ascii '')''"] by (simp add: advances_def m_RPAREN_def ascii_def)

lemma advances_SEMI: "advances m_SEMI"
  using advances_lit [of "ascii '';''"] by (simp add: advances_def m_SEMI_def ascii_def)

lemma advances_BAR: "advances m_BAR"
  using advances_lit [of "ascii ''|''"] by (simp add: advances_def m_BAR_def ascii_def)

lemma advances_KEYWORD: "advances m_KEYWORD"
  unfolding advances_def
proof (intro allI impI)
  fix R code p e assume "m_KEYWORD R code p = Some e"
  then have "alt (map (\<lambda>kw. case match_lit kw code p of
                          None \<Rightarrow> None
                        | Some q \<Rightarrow> if at_boundary R code q then Some q else None)
                 KEYWORDS) = Some e"
    by (simp add: m_KEYWORD_def split: if_splits)
  from alt_Some [OF this] obtain kw where "kw \<in> set KEYWORDS" "match_lit kw code p = Some e"
    by (auto split: option.splits if_splits)
  moreover from this(1) have "kw \<noteq> []" by (auto simp: KEYWORDS_def ascii_def)
  ultimately show "p < e \<and> e \<le> length code" by (auto dest: match_lit_end)
qed

lemma advances_NUMBER: "advances m_NUMBER"
  unfolding advances_def
proof (intro allI impI)
  fix R code p e assume a: "m_NUMBER R code p = Some e"
  let ?n = "run_length (is_digit R) code p"
  from a have "alt (map (\<lambda>k. if at_boundary R code (p + k) then Some (p + k) else None)
                     (rev [1..<Suc ?n])) = Some e"
    by (simp add: m_NUMBER_def Let_def split: if_splits)
  from alt_Some [OF this] obtain k where k: "1 \<le> k" "k \<le> ?n" and e: "e = p + k"
    by (auto split: if_splits)
  have "p + ?n \<le> max p (length code)" by (rule run_length_le)
  with k e show "p < e \<and> e \<le> length code" by auto
qed

lemma advances_IDENT: "advances m_IDENT"
  unfolding advances_def
proof (intro allI impI)
  fix R code p e assume "m_IDENT R code p = Some e"
  then obtain q where q: "match_class (\<lambda>c. ascii_letter c \<or> c = 95) code p = Some q"
    and e: "e = q + run_length (\<lambda>c. ascii_letter c \<or> ascii_digit c \<or> c = 95) code q"
    by (auto simp: m_IDENT_def split: option.splits)
  from match_class_end [OF q] have "p < q \<and> q \<le> length code" .
  moreover have "q + run_length (\<lambda>c. ascii_letter c \<or> ascii_digit c \<or> c = 95) code q
      \<le> max q (length code)"
    by (rule run_length_le)
  ultimately show "p < e \<and> e \<le> length code" using e by auto
qed

lemma advances_UNKNOWN: "advances m_UNKNOWN"
  by (auto simp: advances_def m_UNKNOWN_def dest: match_class_end)

lemma first_group_advances:
  "first_group specs R code p = Some (kind, e) \<Longrightarrow> \<forall>(n, m) \<in> set specs. advances m
     \<Longrightarrow> p < e \<and> e \<le> length code"
  by (induction specs R code p rule: first_group.induct)
     (auto simp: advances_def split: option.splits)

lemma master_regex_end:
  assumes "master_regex R code p = Some (kind, e)"
  shows "p < e \<and> e \<le> length code"
proof -
  have "\<forall>(n, m) \<in> set TOKEN_SPECS. advances m"
    by (simp add: TOKEN_SPECS_def advances_COMMENT advances_NEWLINE advances_WHITESPACE
        advances_ARROW advances_ASSIGN advances_OP advances_LPAREN advances_RPAREN
        advances_SEMI advances_BAR advances_KEYWORD advances_NUMBER advances_IDENT
        advances_UNKNOWN)
  with assms show ?thesis
    unfolding master_regex_def by (rule first_group_advances)
qed

text \<open>The last group matches every character but the newline, the second the newline.\<close>

lemma master_regex_matches:
  assumes "p < length code"
  shows "master_regex R code p \<noteq> None"
proof (cases "code ! p = 10")
  case True
  with assms have "take (Suc 0) (drop p code) = [10]"
    by (simp add: take_Suc_conv_app_nth hd_drop_conv_nth take_Suc)
  then have "m_NEWLINE R code p \<noteq> None" by (simp add: m_NEWLINE_def match_lit_def)
  then show ?thesis
    by (auto simp: master_regex_def TOKEN_SPECS_def split: option.splits)
next
  case False
  with assms have "m_UNKNOWN R code p \<noteq> None" by (simp add: m_UNKNOWN_def match_class_def)
  then show ?thesis
    by (auto simp: master_regex_def TOKEN_SPECS_def split: option.splits)
qed

section \<open>The lexer\<close>

text \<open>A token is a dictionary with the keys type, value, line, col and index; the
  end-of-input token of the parser has no index.\<close>

record token =
  tok_type :: pystr
  tok_value :: pystr
  tok_line :: int
  tok_col :: int
  tok_index :: "nat option"

text \<open>
  The loop of \<open>lex\<close> over its local variables \<open>tokens\<close>, \<open>line\<close>, \<open>col\<close> and \<open>pos\<close>;
  it returns them as they are when the loop ends.
\<close>

function lex_loop :: "runtime \<Rightarrow> pystr \<Rightarrow> token list \<Rightarrow> int \<Rightarrow> int \<Rightarrow> nat
    \<Rightarrow> token list \<times> int \<times> int \<times> nat" where
  "lex_loop R code tokens line col pos =
     (if pos < length code then
        (case master_regex R code pos of
           None \<Rightarrow>
             lex_loop R code
               (tokens @ [\<lparr>tok_type = ascii ''ERROR'', tok_value = [code ! pos],
                           tok_line = line, tok_col = col, tok_index = Some pos\<rparr>])
               line (col + 1) (pos + 1)
         | Some (kind, e) \<Rightarrow>
             (let val = slice code pos e; start = pos in
              if kind = ascii ''NEWLINE'' then lex_loop R code tokens (line + 1) 1 e
              else if kind = ascii ''WHITESPACE'' \<or> kind = ascii ''COMMENT'' then
                lex_loop R code tokens line (col + int (length val)) e
              else if kind = ascii ''UNKNOWN'' then
                lex_loop R code
                  (tokens @ [\<lparr>tok_type = ascii ''ERROR'', tok_value = val,
                              tok_line = line, tok_col = col, tok_index = Some start\<rparr>])
                  line (col + int (length val)) e
              else
                lex_loop R code
                  (tokens @ [\<lparr>tok_type = kind, tok_value = val,
                              tok_line = line, tok_col = col, tok_index = Some start\<rparr>])
                  line (col + int (length val)) e))
      else (tokens, line, col, pos))"
  by pat_completeness auto
termination
proof (relation "measure (\<lambda>(R, code, tokens, line, col, pos). length code - pos)")
  show "wf (measure (\<lambda>(R, code, tokens, line, col, pos). length code - pos))" by simp
qed (auto dest!: master_regex_end)

definition lex :: "runtime \<Rightarrow> pystr \<Rightarrow> token list" where
  "lex R code = fst (lex_loop R code [] 1 1 0)"

section \<open>The syntax tree and the errors\<close>

text \<open>The dictionaries with a key \<open>node\<close>, one constructor for each value of it.\<close>

datatype expr =
    Number int
  | Ident pystr
  | BinaryOp pystr expr expr

datatype stmt =
    If "guard list"
  | Do "guard list"
  | Assign pystr expr
and guard =
    Guard expr "stmt list"

datatype program = Program "stmt list"

text \<open>
  \<open>ParseError(msg, token)\<close> is the exception class of the module; \<open>ValueError\<close> is
  what the built-in \<open>int\<close> raises, \<open>RecursionError\<close> what the interpreter raises at a
  call that would exceed its recursion limit.
\<close>

datatype error =
    ParseError pystr token
  | ValueError
  | RecursionError

section \<open>The parser\<close>

text \<open>The object of class \<open>Parser\<close>: the token list and the read position.\<close>

record parser =
  tokens :: "token list"
  pos :: nat

definition EOF_token :: token where
  "EOF_token = \<lparr>tok_type = ascii ''EOF'', tok_value = [], tok_line = - 1, tok_col = - 1,
                 tok_index = None\<rparr>"

definition peek :: "parser \<Rightarrow> token" where
  "peek P = (if pos P < length (tokens P) then tokens P ! pos P else EOF_token)"

text \<open>An optional argument counts when it is neither \<open>None\<close> nor the empty string.\<close>

definition truthy :: "pystr option \<Rightarrow> bool" where
  "truthy a = (case a of None \<Rightarrow> False | Some s \<Rightarrow> s \<noteq> [])"

text \<open>
  \<open>consume\<close> returns the token or the exception raised, together with the parser
  object as the call leaves it.
\<close>

definition consume :: "parser \<Rightarrow> pystr option \<Rightarrow> pystr option \<Rightarrow> (error + token) \<times> parser" where
  "consume P expected_type expected_value =
     (let tok = peek P in
      if truthy expected_type \<and> tok_type tok \<noteq> the expected_type then
        (Inl (ParseError
               (ascii ''Expected token type '' @ the expected_type @ ascii '' but found ''
                  @ tok_type tok @ ascii '' ('' @ [39] @ tok_value tok @ [39] @ ascii '')'')
               tok), P)
      else if truthy expected_value \<and> tok_value tok \<noteq> the expected_value then
        (Inl (ParseError
               (ascii ''Expected token value '' @ the expected_value @ ascii '' but found ''
                  @ tok_value tok)
               tok), P)
      else (Inr tok, P\<lparr>pos := pos P + 1\<rparr>))"

text \<open>
  The parsing methods call each other recursively, and the interpreter allows only so
  many calls inside each other: a call made when no frame is left raises
  \<open>RecursionError\<close>. Each method takes the number \<open>d\<close> of frames that are left for the
  calls its body makes: a method it calls runs with \<open>d - 1\<close>, and \<open>consume\<close>, which calls
  \<open>peek\<close>, needs two. Every body starts with a call, so with no frame left it raises at
  once. Calls of built-ins are not counted.

  A \<open>while\<close> loop is the function named after its method with \<open>_loop\<close>; it runs in the
  frame of its method, with the same \<open>d\<close>. Each function also takes a bound \<open>n\<close> on
  the number of calls and loop rounds still to be unfolded and is \<open>None\<close> when that is
  used up, which no token list does (theorem \<open>parse_tokens_returns\<close>). Otherwise the
  result is the exception raised (\<open>Inl\<close>), or the value returned with the parser object
  after the call (\<open>Inr\<close>).
\<close>

type_synonym 'a outcome = "(error + 'a \<times> parser) option"

definition and_then :: "'a outcome \<Rightarrow> ('a \<Rightarrow> parser \<Rightarrow> 'b outcome) \<Rightarrow> 'b outcome" where
  "and_then r f =
     (case r of
        None \<Rightarrow> None
      | Some (Inl e) \<Rightarrow> Some (Inl e)
      | Some (Inr (x, P)) \<Rightarrow> f x P)"

definition consumed :: "(error + token) \<times> parser \<Rightarrow> token outcome" where
  "consumed r = (case r of (Inl e, P) \<Rightarrow> Some (Inl e) | (Inr tok, P) \<Rightarrow> Some (Inr (tok, P)))"

definition raise :: "pystr \<Rightarrow> token \<Rightarrow> 'a outcome" where
  "raise msg tok = Some (Inl (ParseError msg tok))"

definition return :: "'a \<Rightarrow> parser \<Rightarrow> 'a outcome" where
  "return x P = Some (Inr (x, P))"

definition recursion_error :: "'a outcome" where
  "recursion_error = Some (Inl RecursionError)"

text \<open>A call of \<open>consume\<close> from a body with \<open>d\<close> frames left.\<close>

definition call_consume :: "nat \<Rightarrow> parser \<Rightarrow> pystr option \<Rightarrow> pystr option \<Rightarrow> token outcome" where
  "call_consume d P expected_type expected_value =
     (if d < 2 then recursion_error else consumed (consume P expected_type expected_value))"

definition is_op :: "token \<Rightarrow> string list \<Rightarrow> bool" where
  "is_op tok ops = (tok_type tok = ascii ''OP'' \<and> tok_value tok \<in> set (map ascii ops))"

function parse_expr :: "runtime \<Rightarrow> nat \<Rightarrow> nat \<Rightarrow> parser \<Rightarrow> expr outcome"
  and parse_equality :: "runtime \<Rightarrow> nat \<Rightarrow> nat \<Rightarrow> parser \<Rightarrow> expr outcome"
  and parse_equality_loop :: "runtime \<Rightarrow> nat \<Rightarrow> nat \<Rightarrow> expr \<Rightarrow> parser \<Rightarrow> expr outcome"
  and parse_relational :: "runtime \<Rightarrow> nat \<Rightarrow> nat \<Rightarrow> parser \<Rightarrow> expr outcome"
  and parse_relational_loop :: "runtime \<Rightarrow> nat \<Rightarrow> nat \<Rightarrow> expr \<Rightarrow> parser \<Rightarrow> expr outcome"
  and parse_additive :: "runtime \<Rightarrow> nat \<Rightarrow> nat \<Rightarrow> parser \<Rightarrow> expr outcome"
  and parse_additive_loop :: "runtime \<Rightarrow> nat \<Rightarrow> nat \<Rightarrow> expr \<Rightarrow> parser \<Rightarrow> expr outcome"
  and parse_term :: "runtime \<Rightarrow> nat \<Rightarrow> nat \<Rightarrow> parser \<Rightarrow> expr outcome"
  and parse_term_loop :: "runtime \<Rightarrow> nat \<Rightarrow> nat \<Rightarrow> expr \<Rightarrow> parser \<Rightarrow> expr outcome"
  and parse_factor :: "runtime \<Rightarrow> nat \<Rightarrow> nat \<Rightarrow> parser \<Rightarrow> expr outcome"
where
  "parse_expr R 0 d P = None"
| "parse_expr R (Suc n) d P =
     (if d = 0 then recursion_error else parse_equality R n (d - 1) P)"
| "parse_equality R 0 d P = None"
| "parse_equality R (Suc n) d P =
     (if d = 0 then recursion_error
      else
        and_then (parse_relational R n (d - 1) P) (\<lambda>left P.
        parse_equality_loop R n d left P))"
| "parse_equality_loop R 0 d left P = None"
| "parse_equality_loop R (Suc n) d left P =
     (if d = 0 then recursion_error
      else if is_op (peek P) [''=='', ''!=''] then
        and_then (call_consume d P (Some (ascii ''OP'')) None) (\<lambda>op P.
        and_then (parse_relational R n (d - 1) P) (\<lambda>right P.
        parse_equality_loop R n d (BinaryOp (tok_value op) left right) P))
      else return left P)"
| "parse_relational R 0 d P = None"
| "parse_relational R (Suc n) d P =
     (if d = 0 then recursion_error
      else
        and_then (parse_additive R n (d - 1) P) (\<lambda>left P.
        parse_relational_loop R n d left P))"
| "parse_relational_loop R 0 d left P = None"
| "parse_relational_loop R (Suc n) d left P =
     (if d = 0 then recursion_error
      else if is_op (peek P) [''<'', ''>'', ''<='', ''>=''] then
        and_then (call_consume d P (Some (ascii ''OP'')) None) (\<lambda>op P.
        and_then (parse_additive R n (d - 1) P) (\<lambda>right P.
        parse_relational_loop R n d (BinaryOp (tok_value op) left right) P))
      else return left P)"
| "parse_additive R 0 d P = None"
| "parse_additive R (Suc n) d P =
     (if d = 0 then recursion_error
      else
        and_then (parse_term R n (d - 1) P) (\<lambda>left P.
        parse_additive_loop R n d left P))"
| "parse_additive_loop R 0 d left P = None"
| "parse_additive_loop R (Suc n) d left P =
     (if d = 0 then recursion_error
      else if is_op (peek P) [''+'', ''-''] then
        and_then (call_consume d P (Some (ascii ''OP'')) None) (\<lambda>op P.
        and_then (parse_term R n (d - 1) P) (\<lambda>right P.
        parse_additive_loop R n d (BinaryOp (tok_value op) left right) P))
      else return left P)"
| "parse_term R 0 d P = None"
| "parse_term R (Suc n) d P =
     (if d = 0 then recursion_error
      else
        and_then (parse_factor R n (d - 1) P) (\<lambda>left P.
        parse_term_loop R n d left P))"
| "parse_term_loop R 0 d left P = None"
| "parse_term_loop R (Suc n) d left P =
     (if d = 0 then recursion_error
      else if is_op (peek P) [''*'', ''/''] then
        and_then (call_consume d P (Some (ascii ''OP'')) None) (\<lambda>op P.
        and_then (parse_factor R n (d - 1) P) (\<lambda>right P.
        parse_term_loop R n d (BinaryOp (tok_value op) left right) P))
      else return left P)"
| "parse_factor R 0 d P = None"
| "parse_factor R (Suc n) d P =
     (if d = 0 then recursion_error
      else
        (let tok = peek P in
         if tok_type tok = ascii ''NUMBER'' then
           and_then (call_consume d P (Some (ascii ''NUMBER'')) None) (\<lambda>_ P.
           case py_int R (tok_value tok) of
             None \<Rightarrow> Some (Inl ValueError)
           | Some v \<Rightarrow> return (Number v) P)
         else if tok_type tok = ascii ''IDENT'' then
           and_then (call_consume d P (Some (ascii ''IDENT'')) None) (\<lambda>_ P.
           return (Ident (tok_value tok)) P)
         else if tok_type tok = ascii ''LPAREN'' then
           and_then (call_consume d P (Some (ascii ''LPAREN'')) None) (\<lambda>_ P.
           and_then (parse_expr R n (d - 1) P) (\<lambda>e P.
           if tok_type (peek P) \<noteq> ascii ''RPAREN'' then
             raise (ascii ''Missing closing '' @ [39, 41, 39]) (peek P)
           else
             and_then (call_consume d P (Some (ascii ''RPAREN'')) None) (\<lambda>_ P.
             return e P)))
         else raise (ascii ''Unexpected token in factor'') tok))"
  by pat_completeness auto
termination
  by (relation "measure (case_sum
        (case_sum (case_sum (\<lambda>(R, n, d, P). n) (\<lambda>(R, n, d, P). n))
                  (case_sum (\<lambda>(R, n, d, l, P). n)
                     (case_sum (\<lambda>(R, n, d, P). n) (\<lambda>(R, n, d, l, P). n))))
        (case_sum (case_sum (\<lambda>(R, n, d, P). n) (\<lambda>(R, n, d, l, P). n))
                  (case_sum (\<lambda>(R, n, d, P). n)
                     (case_sum (\<lambda>(R, n, d, l, P). n) (\<lambda>(R, n, d, P). n)))))")
     auto

definition parse_assignment :: "runtime \<Rightarrow> nat \<Rightarrow> nat \<Rightarrow> parser \<Rightarrow> stmt outcome" where
  "parse_assignment R n d P =
     (if d = 0 then recursion_error
      else
        and_then (call_consume d P (Some (ascii ''IDENT'')) None) (\<lambda>ident P.
        if tok_type (peek P) = ascii ''ASSIGN'' then
          and_then (call_consume d P (Some (ascii ''ASSIGN'')) None) (\<lambda>_ P.
          and_then (parse_expr R n (d - 1) P) (\<lambda>expr P.
          return (Assign (tok_value ident) expr) P))
        else raise (ascii ''Expected '' @ [39] @ ascii '':='' @ [39] @ ascii '' in assignment'')
                   (peek P)))"

function parse_stmt_list :: "runtime \<Rightarrow> nat \<Rightarrow> nat \<Rightarrow> parser \<Rightarrow> stmt list outcome"
  and parse_stmt_list_loop :: "runtime \<Rightarrow> nat \<Rightarrow> nat \<Rightarrow> stmt list \<Rightarrow> parser \<Rightarrow> stmt list outcome"
  and parse_stmt :: "runtime \<Rightarrow> nat \<Rightarrow> nat \<Rightarrow> parser \<Rightarrow> stmt outcome"
  and parse_if :: "runtime \<Rightarrow> nat \<Rightarrow> nat \<Rightarrow> parser \<Rightarrow> stmt outcome"
  and parse_do :: "runtime \<Rightarrow> nat \<Rightarrow> nat \<Rightarrow> parser \<Rightarrow> stmt outcome"
  and parse_guard_list :: "runtime \<Rightarrow> nat \<Rightarrow> nat \<Rightarrow> parser \<Rightarrow> guard list outcome"
  and parse_guard_list_loop :: "runtime \<Rightarrow> nat \<Rightarrow> nat \<Rightarrow> guard list \<Rightarrow> parser \<Rightarrow> guard list outcome"
  and parse_guard :: "runtime \<Rightarrow> nat \<Rightarrow> nat \<Rightarrow> parser \<Rightarrow> guard outcome"
where
  "parse_stmt_list R 0 d P = None"
| "parse_stmt_list R (Suc n) d P = parse_stmt_list_loop R n d [] P"
| "parse_stmt_list_loop R 0 d stmts P = None"
| "parse_stmt_list_loop R (Suc n) d stmts P =
     (if d = 0 then recursion_error
      else
        (let tok = peek P in
         if tok_type tok = ascii ''EOF'' then return stmts P
         else if tok_type tok = ascii ''KEYWORD''
                 \<and> tok_value tok \<in> set (map ascii [''fi'', ''od'']) then return stmts P
         else if tok_type tok \<notin> set (map ascii [''KEYWORD'', ''IDENT'']) then return stmts P
         else
           and_then (parse_stmt R n (d - 1) P) (\<lambda>stmt P.
           if tok_type (peek P) = ascii ''SEMI'' then
             and_then (call_consume d P (Some (ascii ''SEMI'')) None) (\<lambda>_ P.
             parse_stmt_list_loop R n d (stmts @ [stmt]) P)
           else parse_stmt_list_loop R n d (stmts @ [stmt]) P)))"
| "parse_stmt R 0 d P = None"
| "parse_stmt R (Suc n) d P =
     (if d = 0 then recursion_error
      else
        (let tok = peek P in
         if tok_type tok = ascii ''KEYWORD'' \<and> tok_value tok = ascii ''if''
         then parse_if R n (d - 1) P
         else if tok_type tok = ascii ''KEYWORD'' \<and> tok_value tok = ascii ''do''
         then parse_do R n (d - 1) P
         else if tok_type tok = ascii ''IDENT'' then parse_assignment R n (d - 1) P
         else raise (ascii ''Unexpected token in statement: '' @ tok_type tok @ ascii '' ''
                       @ [39] @ tok_value tok @ [39]) tok))"
| "parse_if R 0 d P = None"
| "parse_if R (Suc n) d P =
     (if d = 0 then recursion_error
      else
        and_then (call_consume d P (Some (ascii ''KEYWORD'')) (Some (ascii ''if''))) (\<lambda>_ P.
        and_then (parse_guard_list R n (d - 1) P) (\<lambda>guards P.
        let tok = peek P in
        if tok_type tok = ascii ''KEYWORD'' \<and> tok_value tok = ascii ''fi'' then
          and_then (call_consume d P (Some (ascii ''KEYWORD'')) (Some (ascii ''fi''))) (\<lambda>_ P.
          return (If guards) P)
        else raise (ascii ''Expected '' @ [39] @ ascii ''fi'' @ [39] @ ascii '' to close ''
                      @ [39] @ ascii ''if'' @ [39]) tok)))"
| "parse_do R 0 d P = None"
| "parse_do R (Suc n) d P =
     (if d = 0 then recursion_error
      else
        and_then (call_consume d P (Some (ascii ''KEYWORD'')) (Some (ascii ''do''))) (\<lambda>_ P.
        and_then (parse_guard_list R n (d - 1) P) (\<lambda>guards P.
        let tok = peek P in
        if tok_type tok = ascii ''KEYWORD'' \<and> tok_value tok = ascii ''od'' then
          and_then (call_consume d P (Some (ascii ''KEYWORD'')) (Some (ascii ''od''))) (\<lambda>_ P.
          return (Do guards) P)
        else raise (ascii ''Expected '' @ [39] @ ascii ''od'' @ [39] @ ascii '' to close ''
                      @ [39] @ ascii ''do'' @ [39]) tok)))"
| "parse_guard_list R 0 d P = None"
| "parse_guard_list R (Suc n) d P =
     (if d = 0 then recursion_error
      else
        and_then (parse_guard R n (d - 1) P) (\<lambda>g P.
        parse_guard_list_loop R n d [g] P))"
| "parse_guard_list_loop R 0 d guards P = None"
| "parse_guard_list_loop R (Suc n) d guards P =
     (if d = 0 then recursion_error
      else if tok_type (peek P) = ascii ''BAR'' then
        and_then (call_consume d P (Some (ascii ''BAR'')) None) (\<lambda>_ P.
        and_then (parse_guard R n (d - 1) P) (\<lambda>g P.
        parse_guard_list_loop R n d (guards @ [g]) P))
      else return guards P)"
| "parse_guard R 0 d P = None"
| "parse_guard R (Suc n) d P =
     (if d = 0 then recursion_error
      else
        and_then (parse_expr R n (d - 1) P) (\<lambda>cond P.
        let tok = peek P in
        and_then (if tok_type tok = ascii ''ARROW''
                  then call_consume d P (Some (ascii ''ARROW'')) None
                  else raise (ascii ''Expected '' @ [39] @ ascii ''->'' @ [39] @ ascii '' in guard'')
                         tok) (\<lambda>_ P.
        and_then (parse_stmt_list R n (d - 1) P) (\<lambda>body P.
        return (Guard cond body) P))))"
  by pat_completeness auto
termination
  by (relation "measure (case_sum
        (case_sum (case_sum (\<lambda>(R, n, d, P). n) (\<lambda>(R, n, d, l, P). n))
                  (case_sum (\<lambda>(R, n, d, P). n) (\<lambda>(R, n, d, P). n)))
        (case_sum (case_sum (\<lambda>(R, n, d, P). n) (\<lambda>(R, n, d, P). n))
                  (case_sum (\<lambda>(R, n, d, l, P). n) (\<lambda>(R, n, d, P). n))))")
     auto

definition parse_program :: "runtime \<Rightarrow> nat \<Rightarrow> nat \<Rightarrow> parser \<Rightarrow> program outcome" where
  "parse_program R n d P =
     (if d = 0 then recursion_error
      else
        and_then (parse_stmt_list R n (d - 1) P) (\<lambda>body P.
        return (Program body) P))"

text \<open>
  \<open>parse_tokens\<close> gives the parser a bound that no token list uses up (theorem
  \<open>parse_tokens_returns\<close> below): twelve unfoldings, and eight more for every token.
\<close>

definition parse_fuel :: "token list \<Rightarrow> nat" where
  "parse_fuel toks = 8 * length toks + 12"

text \<open>
  The body of \<open>parse_tokens\<close>, on the token list it is called with. It is taken to run
  with a frame to spare, as the calls it makes itself need (of \<open>ParseError\<close>, of
  \<open>Parser\<close>, of \<open>parse_program\<close>); \<open>recursion_room\<close> is what is left inside
  \<open>parse_program\<close>.
\<close>

definition parse_tokens :: "runtime \<Rightarrow> token list \<Rightarrow> (error + program) option" where
  "parse_tokens R toks =
     (let lex_errors = filter (\<lambda>t. tok_type t = ascii ''ERROR'') toks in
      if lex_errors \<noteq> [] then
        Some (Inl (ParseError (ascii ''Lexical errors present'') (hd lex_errors)))
      else
        (let toks' = toks @ [EOF_token];
             P = \<lparr>tokens = toks', pos = 0\<rparr>
         in case parse_program R (parse_fuel toks) (recursion_room R) P of
              None \<Rightarrow> None
            | Some (Inl e) \<Rightarrow> Some (Inl e)
            | Some (Inr (ast, P')) \<Rightarrow> Some (Inr ast)))"

section \<open>The spans a scan consumes\<close>

text \<open>
  The loop of \<open>lex\<close> once more, keeping of every round the group that matched and the
  offsets where the match starts and ends, also for the matches it emits no token for.
\<close>

function lex_spans :: "runtime \<Rightarrow> pystr \<Rightarrow> nat \<Rightarrow> (pystr \<times> nat \<times> nat) list" where
  "lex_spans R code p =
     (if p < length code then
        (case master_regex R code p of
           None \<Rightarrow> (ascii ''ERROR'', p, p + 1) # lex_spans R code (p + 1)
         | Some (kind, e) \<Rightarrow> (kind, p, e) # lex_spans R code e)
      else [])"
  by pat_completeness auto
termination
proof (relation "measure (\<lambda>(R, code, p). length code - p)")
  show "wf (measure (\<lambda>(R, code, p). length code - p))" by simp
qed (auto dest!: master_regex_end)


text \<open>The text of a span, whether the scan skips it, and the token the scan emits for it
  (without its line and column); the same three fields of a token.\<close>

definition span_text :: "pystr \<Rightarrow> pystr \<times> nat \<times> nat \<Rightarrow> pystr" where
  "span_text code sp = (case sp of (kind, s, e) \<Rightarrow> slice code s e)"

definition skipped :: "pystr \<times> nat \<times> nat \<Rightarrow> bool" where
  "skipped sp = (case sp of (kind, s, e) \<Rightarrow>
     kind = ascii ''NEWLINE'' \<or> kind = ascii ''WHITESPACE'' \<or> kind = ascii ''COMMENT'')"

definition span_token :: "pystr \<Rightarrow> pystr \<times> nat \<times> nat \<Rightarrow> pystr \<times> pystr \<times> nat option" where
  "span_token code sp = (case sp of (kind, s, e) \<Rightarrow>
     (if kind = ascii ''UNKNOWN'' then ascii ''ERROR'' else kind, slice code s e, Some s))"

definition token_span :: "token \<Rightarrow> pystr \<times> pystr \<times> nat option" where
  "token_span t = (tok_type t, tok_value t, tok_index t)"


text \<open>
  No pattern of the list but the last one, \<open>UNKNOWN\<close>, matches at the offset: the
  character there belongs to no token of the language.
\<close>

definition unrecognised :: "runtime \<Rightarrow> pystr \<Rightarrow> nat \<Rightarrow> bool" where
  "unrecognised R code p = list_all (\<lambda>(name, m). m R code p = None) (butlast TOKEN_SPECS)"


section \<open>Relations between outcomes\<close>

text \<open>
  \<open>stable a b\<close>: \<open>b\<close> is the outcome \<open>a\<close> unless \<open>a\<close> ran out of its bound.
  \<open>room_stable a b\<close>: \<open>b\<close> is the outcome \<open>a\<close> unless \<open>a\<close> is \<open>RecursionError\<close>.
  \<open>moved k P r\<close>: a value returned by \<open>r\<close>, started on the parser object \<open>P\<close>, comes with
  the same tokens and a position at least \<open>k\<close> further, inside the list.
  \<open>remaining P\<close> is the number of tokens not read yet, and \<open>returns r\<close> says that \<open>r\<close> is
  an outcome of the code, a value or an exception.
\<close>

definition stable :: "'a outcome \<Rightarrow> 'a outcome \<Rightarrow> bool" where
  "stable a b = (a = None \<or> a = b)"

definition room_stable :: "'a outcome \<Rightarrow> 'a outcome \<Rightarrow> bool" where
  "room_stable a b = (a = recursion_error \<or> a = b)"

definition moved :: "nat \<Rightarrow> parser \<Rightarrow> 'a outcome \<Rightarrow> bool" where
  "moved k P r =
     (\<forall>x P'. r = Some (Inr (x, P')) \<longrightarrow>
        tokens P' = tokens P \<and> pos P + k \<le> pos P'
        \<and> pos P' \<le> max (pos P) (length (tokens P)))"

definition remaining :: "parser \<Rightarrow> nat" where
  "remaining P = length (tokens P) - pos P"

definition returns :: "'a outcome \<Rightarrow> bool" where
  "returns r = (r \<noteq> None)"


section \<open>Examples\<close>

text \<open>
  A runtime that knows no character beyond ASCII and leaves the parser 950 of the
  1000 frames of the default limit, and some tokens.
\<close>

definition ascii_runtime :: runtime where
  "ascii_runtime = \<lparr>uni_isalnum = (\<lambda>c. False), uni_isdecimal = (\<lambda>c. False),
                     int_other = (\<lambda>s. None), recursion_room = 950\<rparr>"

definition tok_x :: token where
  "tok_x = \<lparr>tok_type = ascii ''IDENT'', tok_value = ascii ''x'', tok_line = 1, tok_col = 1,
            tok_index = Some 0\<rparr>"

definition tok_at :: token where
  "tok_at = \<lparr>tok_type = ascii ''ERROR'', tok_value = ascii ''@'', tok_line = 1, tok_col = 8,
             tok_index = Some 7\<rparr>"

section \<open>The lexer scans the whole source\<close>

lemma lex_loop_end:
  "\<exists>toks' l' c'. lex_loop R code toks l c p = (toks', l', c', max p (length code))"
proof (induction R code toks l c p rule: lex_loop.induct)
  case (1 R code toks l c p)
  show ?case
  proof (cases "p < length code")
    case False
    then show ?thesis by (subst lex_loop.simps) simp
  next
    case True
    show ?thesis
    proof (cases "master_regex R code p")
      case None
      with True show ?thesis using master_regex_matches by blast
    next
      case (Some ke)
      obtain kind e where ke: "ke = (kind, e)" by (cases ke)
      from Some ke master_regex_end have e: "p < e" "e \<le> length code" by blast+
      then have m: "max e (length code) = max p (length code)" by simp
      from Some ke True show ?thesis
        using "1.IH"(2-5) [OF True Some [unfolded ke] refl refl refl] 
        apply (subst lex_loop.simps)
        apply (simp add: Let_def m del: lex_loop.simps)
        done
    qed
  qed
qed

lemma token_span_simp:
  "token_span \<lparr>tok_type = a, tok_value = b, tok_line = l, tok_col = c, tok_index = i\<rparr>
     = (a, b, i)"
  by (simp add: token_span_def)

lemma span_token_simp:
  "span_token code (kind, s, e)
     = (if kind = ascii ''UNKNOWN'' then ascii ''ERROR'' else kind, slice code s e, Some s)"
  by (simp add: span_token_def)

lemma skipped_simp:
  "skipped (kind, s, e)
     = (kind = ascii ''NEWLINE'' \<or> kind = ascii ''WHITESPACE'' \<or> kind = ascii ''COMMENT'')"
  by (simp add: skipped_def)

lemma slice_drop:
  assumes "p \<le> e" and "e \<le> length code"
  shows "slice code p e @ drop e code = drop p code"
proof -
  from assms have "drop e code = drop (e - p) (drop p code)" by simp
  then show ?thesis unfolding slice_def by (metis append_take_drop_id)
qed

lemma lex_spans_cover:
  "p \<le> length code \<Longrightarrow> concat (map (span_text code) (lex_spans R code p)) = drop p code"
proof (induction R code p rule: lex_spans.induct)
  case (1 R code p)
  show ?case
  proof (cases "p < length code")
    case False
    with "1.prems" show ?thesis by (subst lex_spans.simps) simp
  next
    case True
    show ?thesis
    proof (cases "master_regex R code p")
      case None
      with True show ?thesis using master_regex_matches by blast
    next
      case (Some ke)
      obtain kind e where ke: "ke = (kind, e)" by (cases ke)
      from Some ke master_regex_end have e: "p < e" "e \<le> length code" by blast+
      from "1.IH"(2) [OF True Some [unfolded ke] refl e(2)]
      have "concat (map (span_text code) (lex_spans R code e)) = drop e code" .
      moreover have "slice code p e @ drop e code = drop p code"
        using e by (intro slice_drop) simp_all
      ultimately show ?thesis using True Some ke
        by (subst lex_spans.simps) (simp add: span_text_def del: lex_spans.simps)
    qed
  qed
qed

lemma lex_loop_spans:
  "map token_span (fst (lex_loop R code toks l c p))
     = map token_span toks
       @ map (span_token code) (filter (\<lambda>sp. \<not> skipped sp) (lex_spans R code p))"
proof (induction R code toks l c p rule: lex_loop.induct)
  case (1 R code toks l c p)
  show ?case
  proof (cases "p < length code")
    case False
    then show ?thesis by (subst lex_loop.simps, subst lex_spans.simps) simp
  next
    case True
    show ?thesis
    proof (cases "master_regex R code p")
      case None
      with True show ?thesis using master_regex_matches by blast
    next
      case (Some ke)
      obtain kind e where ke: "ke = (kind, e)" by (cases ke)
      note IH = "1.IH"(2-5) [OF True Some [unfolded ke] refl refl]
      consider (nl) "kind = ascii ''NEWLINE''"
        | (skip) "kind \<noteq> ascii ''NEWLINE''"
            "kind = ascii ''WHITESPACE'' \<or> kind = ascii ''COMMENT''"
        | (unk) "kind \<noteq> ascii ''NEWLINE''"
            "\<not> (kind = ascii ''WHITESPACE'' \<or> kind = ascii ''COMMENT'')"
            "kind = ascii ''UNKNOWN''"
        | (tok) "kind \<noteq> ascii ''NEWLINE''"
            "\<not> (kind = ascii ''WHITESPACE'' \<or> kind = ascii ''COMMENT'')"
            "kind \<noteq> ascii ''UNKNOWN''"
        by blast
      then show ?thesis
      proof cases
        case nl
        with IH(1) True Some ke show ?thesis
          by (subst lex_loop.simps, subst lex_spans.simps)
             (simp add: Let_def skipped_simp del: lex_loop.simps lex_spans.simps)
      next
        case skip
        with IH(2) True Some ke show ?thesis
          by (subst lex_loop.simps, subst lex_spans.simps)
             (simp add: Let_def skipped_simp del: lex_loop.simps lex_spans.simps)
      next
        case unk
        with IH(3) True Some ke show ?thesis
          by (subst lex_loop.simps, subst lex_spans.simps)
             (simp add: Let_def skipped_simp span_token_simp token_span_simp
                   del: lex_loop.simps lex_spans.simps)
      next
        case tok
        with IH(4) True Some ke show ?thesis
          by (subst lex_loop.simps, subst lex_spans.simps)
             (simp add: Let_def skipped_simp span_token_simp token_span_simp
                   del: lex_loop.simps lex_spans.simps)
      qed
    qed
  qed
qed


lemma lex_spans_member:
  "(kind, s, e) \<in> set (lex_spans R code p)
     \<Longrightarrow> p \<le> s \<and> s < length code \<and> master_regex R code s = Some (kind, e)"
proof (induction R code p rule: lex_spans.induct)
  case (1 R code p)
  show ?case
  proof (cases "p < length code")
    case False
    with "1.prems" show ?thesis by (subst (asm) lex_spans.simps) simp
  next
    case True
    show ?thesis
    proof (cases "master_regex R code p")
      case None
      with True show ?thesis using master_regex_matches by blast
    next
      case (Some ke)
      obtain k e' where ke: "ke = (k, e')" by (cases ke)
      from Some ke master_regex_end have e: "p < e'" "e' \<le> length code" by blast+
      from "1.prems" True Some ke
      have "(kind, s, e) = (k, p, e') \<or> (kind, s, e) \<in> set (lex_spans R code e')"
        by (subst (asm) lex_spans.simps) (simp del: lex_spans.simps)
      then show ?thesis
      proof
        assume "(kind, s, e) = (k, p, e')"
        with True Some ke show ?thesis by simp
      next
        assume "(kind, s, e) \<in> set (lex_spans R code e')"
        from "1.IH"(2) [OF True Some [unfolded ke] refl this] e show ?thesis by simp
      qed
    qed
  qed
qed

lemma unrecognised_UNKNOWN:
  assumes "p < length code" and "unrecognised R code p"
  shows "master_regex R code p = Some (ascii ''UNKNOWN'', p + 1)"
proof -
  from assms(2) have none: "m_COMMENT R code p = None" "m_NEWLINE R code p = None"
    "m_WHITESPACE R code p = None" "m_ARROW R code p = None" "m_ASSIGN R code p = None"
    "m_OP R code p = None" "m_LPAREN R code p = None" "m_RPAREN R code p = None"
    "m_SEMI R code p = None" "m_BAR R code p = None" "m_KEYWORD R code p = None"
    "m_NUMBER R code p = None" "m_IDENT R code p = None"
    by (simp_all add: unrecognised_def TOKEN_SPECS_def)
  from assms(1) have "take (Suc 0) (drop p code) = [code ! p]"
    by (simp add: take_Suc_conv_app_nth hd_drop_conv_nth take_Suc)
  with none(2) have "code ! p \<noteq> 10"
    by (simp add: m_NEWLINE_def match_lit_def split: if_splits)
  with assms(1) have "m_UNKNOWN R code p = Some (p + 1)"
    by (simp add: m_UNKNOWN_def match_class_def)
  with none show ?thesis by (simp add: master_regex_def TOKEN_SPECS_def)
qed

lemma slice_one: "s < length code \<Longrightarrow> slice code s (Suc s) = [code ! s]"
  by (simp add: slice_def take_Suc_conv_app_nth hd_drop_conv_nth take_Suc)

text \<open>
  Claim C1. For every source string the scan ends at the end of the source (the loop is
  a total function, and the offset it stops at is the length of the source); the spans
  it consumes, skipped ones included, concatenate to the source; the tokens it emits
  are the spans that are not newline, whitespace or comment, in order; and wherever
  the scan stands at a character that no pattern but \<open>UNKNOWN\<close> matches, it consumes
  that one character and emits it as a token of type ERROR, as it does for the \<open>@\<close>
  of the source \<open>x @\<close>.
\<close>

theorem lex_scans_whole_source:
  "snd (snd (snd (lex_loop R code [] 1 1 0))) = length code
   \<and> concat (map (span_text code) (lex_spans R code 0)) = code
   \<and> map token_span (lex R code)
       = map (span_token code) (filter (\<lambda>sp. \<not> skipped sp) (lex_spans R code 0))
   \<and> (\<forall>(kind, s, e) \<in> set (lex_spans R code 0).
        unrecognised R code s \<longrightarrow>
          kind = ascii ''UNKNOWN'' \<and> e = s + 1
          \<and> (ascii ''ERROR'', [code ! s], Some s) \<in> set (map token_span (lex R code)))
   \<and> lex R (ascii ''x @'')
       = [\<lparr>tok_type = ascii ''IDENT'', tok_value = ascii ''x'', tok_line = 1, tok_col = 1,
           tok_index = Some 0\<rparr>,
          \<lparr>tok_type = ascii ''ERROR'', tok_value = ascii ''@'', tok_line = 1, tok_col = 3,
           tok_index = Some 2\<rparr>]"
proof -
  obtain toks' l' c' where "lex_loop R code [] 1 1 0 = (toks', l', c', max 0 (length code))"
    using lex_loop_end by blast
  then have "snd (snd (snd (lex_loop R code [] 1 1 0))) = length code" by simp
  moreover have "concat (map (span_text code) (lex_spans R code 0)) = code"
    using lex_spans_cover [of 0 code R] by simp
  moreover have toks: "map token_span (lex R code)
       = map (span_token code) (filter (\<lambda>sp. \<not> skipped sp) (lex_spans R code 0))"
    unfolding lex_def using lex_loop_spans [of R code "[]" 1 1 0] by simp
  moreover have "\<forall>(kind, s, e) \<in> set (lex_spans R code 0).
        unrecognised R code s \<longrightarrow>
          kind = ascii ''UNKNOWN'' \<and> e = s + 1
          \<and> (ascii ''ERROR'', [code ! s], Some s) \<in> set (map token_span (lex R code))"
  proof (intro ballI, clarify)
    fix kind s e
    assume mem: "(kind, s, e) \<in> set (lex_spans R code 0)" and un: "unrecognised R code s"
    from lex_spans_member [OF mem]
    have s: "s < length code" and m: "master_regex R code s = Some (kind, e)" by simp_all
    from unrecognised_UNKNOWN [OF s un] m
    have k: "kind = ascii ''UNKNOWN''" and e: "e = s + 1" by simp_all
    from mem k e have "(ascii ''UNKNOWN'', s, s + 1)
        \<in> set (filter (\<lambda>sp. \<not> skipped sp) (lex_spans R code 0))"
      by (simp add: skipped_simp ascii_def)
    then have "span_token code (ascii ''UNKNOWN'', s, s + 1)
        \<in> span_token code ` set (filter (\<lambda>sp. \<not> skipped sp) (lex_spans R code 0))"
      by (rule imageI)
    then have "span_token code (ascii ''UNKNOWN'', s, s + 1)
        \<in> set (map token_span (lex R code))"
      unfolding toks set_map .
    then have "(ascii ''ERROR'', [code ! s], Some s) \<in> set (map token_span (lex R code))"
      by (simp add: span_token_simp slice_one [OF s])
    with k e show "kind = ascii ''UNKNOWN'' \<and> e = s + 1
          \<and> (ascii ''ERROR'', [code ! s], Some s) \<in> set (map token_span (lex R code))"
      by simp
  qed
  moreover have "lex R (ascii ''x @'')
       = [\<lparr>tok_type = ascii ''IDENT'', tok_value = ascii ''x'', tok_line = 1, tok_col = 1,
           tok_index = Some 0\<rparr>,
          \<lparr>tok_type = ascii ''ERROR'', tok_value = ascii ''@'', tok_line = 1, tok_col = 3,
           tok_index = Some 2\<rparr>]"
    by code_simp
  ultimately show ?thesis by blast
qed

text \<open>The \<open>@\<close> of \<open>x @\<close> is such a character, at offset 2.\<close>

theorem lex_scans_whole_source_witness:
  "(ascii ''ERROR'', ascii ''@'', Some 2)
     \<in> set (map token_span (lex ascii_runtime (ascii ''x @'')))"
proof -
  have a: "(ascii ''UNKNOWN'', 2, 3) \<in> set (lex_spans ascii_runtime (ascii ''x @'') 0)"
    by code_simp
  have b: "unrecognised ascii_runtime (ascii ''x @'') 2" by code_simp
  have c: "[ascii ''x @'' ! 2] = ascii ''@''" by (simp add: ascii_def)
  note th = lex_scans_whole_source [of ascii_runtime "ascii ''x @''", THEN conjunct2,
      THEN conjunct2, THEN conjunct2, THEN conjunct1, THEN bspec, OF a]
  from th b c show ?thesis by simp
qed

section \<open>The cursor\<close>

text \<open>
  Claim C8, as amended. When the expected type is given and not the empty string and
  differs from the type of the current token, or the expected text is given and not
  the empty string and differs from its text, \<open>consume\<close> raises a \<open>ParseError\<close> that
  carries the current token and leaves the parser object as it was; otherwise it
  returns the current token and moves the position forward by one.
\<close>

theorem consume_checks:
  "(truthy expected_type \<and> tok_type (peek P) \<noteq> the expected_type
      \<longrightarrow> (\<exists>msg. consume P expected_type expected_value = (Inl (ParseError msg (peek P)), P)))
   \<and> (truthy expected_value \<and> tok_value (peek P) \<noteq> the expected_value
      \<longrightarrow> (\<exists>msg. consume P expected_type expected_value = (Inl (ParseError msg (peek P)), P)))
   \<and> (\<not> (truthy expected_type \<and> tok_type (peek P) \<noteq> the expected_type)
        \<and> \<not> (truthy expected_value \<and> tok_value (peek P) \<noteq> the expected_value)
      \<longrightarrow> consume P expected_type expected_value = (Inr (peek P), P\<lparr>pos := pos P + 1\<rparr>))"
  by (simp add: consume_def Let_def)

theorem consume_checks_witness:
  "(\<exists>msg. consume \<lparr>tokens = [tok_x], pos = 0\<rparr> (Some (ascii ''SEMI'')) None
       = (Inl (ParseError msg tok_x), \<lparr>tokens = [tok_x], pos = 0\<rparr>))
   \<and> (\<exists>msg. consume \<lparr>tokens = [tok_x], pos = 0\<rparr> (Some (ascii ''IDENT'')) (Some (ascii ''y''))
       = (Inl (ParseError msg tok_x), \<lparr>tokens = [tok_x], pos = 0\<rparr>))
   \<and> consume \<lparr>tokens = [tok_x], pos = 0\<rparr> (Some (ascii ''IDENT'')) (Some (ascii ''x''))
       = (Inr tok_x, \<lparr>tokens = [tok_x], pos = 1\<rparr>)"
  using consume_checks [of "Some (ascii ''SEMI'')" "\<lparr>tokens = [tok_x], pos = 0\<rparr>" None]
    consume_checks [of "Some (ascii ''IDENT'')" "\<lparr>tokens = [tok_x], pos = 0\<rparr>" "Some (ascii ''y'')"]
    consume_checks [of "Some (ascii ''IDENT'')" "\<lparr>tokens = [tok_x], pos = 0\<rparr>" "Some (ascii ''x'')"]
  by (simp add: truthy_def peek_def tok_x_def ascii_def)

text \<open>
  Claim C8 as stated fails: the empty string as expected text differs from the text
  \<open>x\<close> of the current token, and \<open>consume\<close> returns the token and advances.
\<close>

theorem consume_empty_text_counterexample:
  "tok_value (peek \<lparr>tokens = [tok_x], pos = 0\<rparr>) \<noteq> []
   \<and> consume \<lparr>tokens = [tok_x], pos = 0\<rparr> None (Some [])
       = (Inr tok_x, \<lparr>tokens = [tok_x], pos = 1\<rparr>)"
  by (simp add: consume_def truthy_def peek_def tok_x_def ascii_def)

section \<open>Lexical errors come first\<close>

text \<open>
  Claim C2. When a token list has a token of type ERROR, \<open>parse_tokens\<close> raises a
  \<open>ParseError\<close> with the message \<open>Lexical errors present\<close> and the first such token of
  the list, whatever the other tokens are; and the tokens of the source \<open>x := 1 @ 2\<close>
  make it raise that error with the token of \<open>@\<close>, at line 1 and column 8.
\<close>

theorem parse_first_lexical_error:
  assumes "\<forall>t \<in> set pre. tok_type t \<noteq> ascii ''ERROR''" and "tok_type err = ascii ''ERROR''"
  shows "parse_tokens R (pre @ err # rest)
           = Some (Inl (ParseError (ascii ''Lexical errors present'') err))
         \<and> parse_tokens R (lex R (ascii ''x := 1 @ 2''))
           = Some (Inl (ParseError (ascii ''Lexical errors present'') tok_at))"
proof -
  from assms(1) have "filter (\<lambda>t. tok_type t = ascii ''ERROR'') pre = []"
    by (simp add: filter_empty_conv)
  with assms(2) have "parse_tokens R (pre @ err # rest)
      = Some (Inl (ParseError (ascii ''Lexical errors present'') err))"
    by (simp add: parse_tokens_def)
  moreover have "parse_tokens R (lex R (ascii ''x := 1 @ 2''))
      = Some (Inl (ParseError (ascii ''Lexical errors present'') tok_at))"
    by code_simp
  ultimately show ?thesis by blast
qed

theorem parse_first_lexical_error_witness:
  "parse_tokens ascii_runtime ([tok_x] @ tok_at # [tok_at, tok_x])
     = Some (Inl (ParseError (ascii ''Lexical errors present'') tok_at))"
  using parse_first_lexical_error [of "[tok_x]" tok_at ascii_runtime "[tok_at, tok_x]"]
  by (simp add: tok_x_def tok_at_def ascii_def)

section \<open>The parser always answers\<close>

subsection \<open>A larger bound changes no result\<close>

lemma stable_refl: "stable a a" by (simp add: stable_def)

lemma stable_None: "stable None b" by (simp add: stable_def)

lemma stable_and_then:
  assumes "stable a b" and "\<And>x P. stable (f x P) (g x P)"
  shows "stable (and_then a f) (and_then b g)"
  using assms by (auto simp: stable_def and_then_def split: option.splits sum.splits)

lemma stable_if:
  "(c \<Longrightarrow> stable a b) \<Longrightarrow> (\<not> c \<Longrightarrow> stable a' b')
     \<Longrightarrow> stable (if c then a else a') (if c then b else b')"
  by simp

lemma stable_case_option:
  "(opt = None \<Longrightarrow> stable a b) \<Longrightarrow> (\<And>v. opt = Some v \<Longrightarrow> stable (f v) (g v))
     \<Longrightarrow> stable (case opt of None \<Rightarrow> a | Some v \<Rightarrow> f v) (case opt of None \<Rightarrow> b | Some v \<Rightarrow> g v)"
  by (cases opt) simp_all

lemma stable_Some: "stable a b \<Longrightarrow> a = Some v \<Longrightarrow> b = Some v"
  by (simp add: stable_def)

lemma expr_fuel_mono:
  shows "n \<le> m \<Longrightarrow> stable (parse_expr R n d P) (parse_expr R m d P)"
    and "n \<le> m \<Longrightarrow> stable (parse_equality R n d P) (parse_equality R m d P)"
    and "n \<le> m \<Longrightarrow> stable (parse_equality_loop R n d left P) (parse_equality_loop R m d left P)"
    and "n \<le> m \<Longrightarrow> stable (parse_relational R n d P) (parse_relational R m d P)"
    and "n \<le> m \<Longrightarrow> stable (parse_relational_loop R n d left P) (parse_relational_loop R m d left P)"
    and "n \<le> m \<Longrightarrow> stable (parse_additive R n d P) (parse_additive R m d P)"
    and "n \<le> m \<Longrightarrow> stable (parse_additive_loop R n d left P) (parse_additive_loop R m d left P)"
    and "n \<le> m \<Longrightarrow> stable (parse_term R n d P) (parse_term R m d P)"
    and "n \<le> m \<Longrightarrow> stable (parse_term_loop R n d left P) (parse_term_loop R m d left P)"
    and "n \<le> m \<Longrightarrow> stable (parse_factor R n d P) (parse_factor R m d P)"
proof (induction n arbitrary: m d P left)
  case 0
  {
    case 1
    show ?case by (simp add: stable_None)
  }
  {
    case 2
    show ?case by (simp add: stable_None)
  }
  {
    case 3
    show ?case by (simp add: stable_None)
  }
  {
    case 4
    show ?case by (simp add: stable_None)
  }
  {
    case 5
    show ?case by (simp add: stable_None)
  }
  {
    case 6
    show ?case by (simp add: stable_None)
  }
  {
    case 7
    show ?case by (simp add: stable_None)
  }
  {
    case 8
    show ?case by (simp add: stable_None)
  }
  {
    case 9
    show ?case by (simp add: stable_None)
  }
  {
    case 10
    show ?case by (simp add: stable_None)
  }
next
  case (Suc n)
  note IH = Suc.IH
  {
    case 1
    then obtain m' where m: "m = Suc m'" and le: "n \<le> m'" by (cases m) auto
    show ?case unfolding m
      by (simp only:
            parse_expr.simps parse_equality.simps parse_equality_loop.simps
            parse_relational.simps parse_relational_loop.simps parse_additive.simps
            parse_additive_loop.simps parse_term.simps parse_term_loop.simps parse_factor.simps Let_def,
          intro stable_refl stable_if stable_case_option stable_and_then IH [OF le])
  }
  {
    case 2
    then obtain m' where m: "m = Suc m'" and le: "n \<le> m'" by (cases m) auto
    show ?case unfolding m
      by (simp only:
            parse_expr.simps parse_equality.simps parse_equality_loop.simps
            parse_relational.simps parse_relational_loop.simps parse_additive.simps
            parse_additive_loop.simps parse_term.simps parse_term_loop.simps parse_factor.simps Let_def,
          intro stable_refl stable_if stable_case_option stable_and_then IH [OF le])
  }
  {
    case 3
    then obtain m' where m: "m = Suc m'" and le: "n \<le> m'" by (cases m) auto
    show ?case unfolding m
      by (simp only:
            parse_expr.simps parse_equality.simps parse_equality_loop.simps
            parse_relational.simps parse_relational_loop.simps parse_additive.simps
            parse_additive_loop.simps parse_term.simps parse_term_loop.simps parse_factor.simps Let_def,
          intro stable_refl stable_if stable_case_option stable_and_then IH [OF le])
  }
  {
    case 4
    then obtain m' where m: "m = Suc m'" and le: "n \<le> m'" by (cases m) auto
    show ?case unfolding m
      by (simp only:
            parse_expr.simps parse_equality.simps parse_equality_loop.simps
            parse_relational.simps parse_relational_loop.simps parse_additive.simps
            parse_additive_loop.simps parse_term.simps parse_term_loop.simps parse_factor.simps Let_def,
          intro stable_refl stable_if stable_case_option stable_and_then IH [OF le])
  }
  {
    case 5
    then obtain m' where m: "m = Suc m'" and le: "n \<le> m'" by (cases m) auto
    show ?case unfolding m
      by (simp only:
            parse_expr.simps parse_equality.simps parse_equality_loop.simps
            parse_relational.simps parse_relational_loop.simps parse_additive.simps
            parse_additive_loop.simps parse_term.simps parse_term_loop.simps parse_factor.simps Let_def,
          intro stable_refl stable_if stable_case_option stable_and_then IH [OF le])
  }
  {
    case 6
    then obtain m' where m: "m = Suc m'" and le: "n \<le> m'" by (cases m) auto
    show ?case unfolding m
      by (simp only:
            parse_expr.simps parse_equality.simps parse_equality_loop.simps
            parse_relational.simps parse_relational_loop.simps parse_additive.simps
            parse_additive_loop.simps parse_term.simps parse_term_loop.simps parse_factor.simps Let_def,
          intro stable_refl stable_if stable_case_option stable_and_then IH [OF le])
  }
  {
    case 7
    then obtain m' where m: "m = Suc m'" and le: "n \<le> m'" by (cases m) auto
    show ?case unfolding m
      by (simp only:
            parse_expr.simps parse_equality.simps parse_equality_loop.simps
            parse_relational.simps parse_relational_loop.simps parse_additive.simps
            parse_additive_loop.simps parse_term.simps parse_term_loop.simps parse_factor.simps Let_def,
          intro stable_refl stable_if stable_case_option stable_and_then IH [OF le])
  }
  {
    case 8
    then obtain m' where m: "m = Suc m'" and le: "n \<le> m'" by (cases m) auto
    show ?case unfolding m
      by (simp only:
            parse_expr.simps parse_equality.simps parse_equality_loop.simps
            parse_relational.simps parse_relational_loop.simps parse_additive.simps
            parse_additive_loop.simps parse_term.simps parse_term_loop.simps parse_factor.simps Let_def,
          intro stable_refl stable_if stable_case_option stable_and_then IH [OF le])
  }
  {
    case 9
    then obtain m' where m: "m = Suc m'" and le: "n \<le> m'" by (cases m) auto
    show ?case unfolding m
      by (simp only:
            parse_expr.simps parse_equality.simps parse_equality_loop.simps
            parse_relational.simps parse_relational_loop.simps parse_additive.simps
            parse_additive_loop.simps parse_term.simps parse_term_loop.simps parse_factor.simps Let_def,
          intro stable_refl stable_if stable_case_option stable_and_then IH [OF le])
  }
  {
    case 10
    then obtain m' where m: "m = Suc m'" and le: "n \<le> m'" by (cases m) auto
    show ?case unfolding m
      by (simp only:
            parse_expr.simps parse_equality.simps parse_equality_loop.simps
            parse_relational.simps parse_relational_loop.simps parse_additive.simps
            parse_additive_loop.simps parse_term.simps parse_term_loop.simps parse_factor.simps Let_def,
          intro stable_refl stable_if stable_case_option stable_and_then IH [OF le])
  }
qed

lemma assignment_fuel_mono:
  "n \<le> m \<Longrightarrow> stable (parse_assignment R n d P) (parse_assignment R m d P)"
  unfolding parse_assignment_def
  by (intro stable_and_then stable_if stable_refl expr_fuel_mono(1))

lemma stmt_fuel_mono:
  shows "n \<le> m \<Longrightarrow> stable (parse_stmt_list R n d P) (parse_stmt_list R m d P)"
    and "n \<le> m \<Longrightarrow> stable (parse_stmt_list_loop R n d acc P) (parse_stmt_list_loop R m d acc P)"
    and "n \<le> m \<Longrightarrow> stable (parse_stmt R n d P) (parse_stmt R m d P)"
    and "n \<le> m \<Longrightarrow> stable (parse_if R n d P) (parse_if R m d P)"
    and "n \<le> m \<Longrightarrow> stable (parse_do R n d P) (parse_do R m d P)"
    and "n \<le> m \<Longrightarrow> stable (parse_guard_list R n d P) (parse_guard_list R m d P)"
    and "n \<le> m \<Longrightarrow> stable (parse_guard_list_loop R n d gs P) (parse_guard_list_loop R m d gs P)"
    and "n \<le> m \<Longrightarrow> stable (parse_guard R n d P) (parse_guard R m d P)"
proof (induction n arbitrary: m d P acc gs)
  case 0
  {
    case 1
    show ?case by (simp add: stable_None)
  }
  {
    case 2
    show ?case by (simp add: stable_None)
  }
  {
    case 3
    show ?case by (simp add: stable_None)
  }
  {
    case 4
    show ?case by (simp add: stable_None)
  }
  {
    case 5
    show ?case by (simp add: stable_None)
  }
  {
    case 6
    show ?case by (simp add: stable_None)
  }
  {
    case 7
    show ?case by (simp add: stable_None)
  }
  {
    case 8
    show ?case by (simp add: stable_None)
  }
next
  case (Suc n)
  note IH = Suc.IH
  {
    case 1
    then obtain m' where m: "m = Suc m'" and le: "n \<le> m'" by (cases m) auto
    show ?case unfolding m
      by (simp only:
            parse_stmt_list.simps parse_stmt_list_loop.simps parse_stmt.simps parse_if.simps
            parse_do.simps parse_guard_list.simps parse_guard_list_loop.simps parse_guard.simps Let_def,
          intro stable_refl stable_if stable_case_option stable_and_then IH [OF le]
            expr_fuel_mono(1) [OF le] assignment_fuel_mono [OF le])
  }
  {
    case 2
    then obtain m' where m: "m = Suc m'" and le: "n \<le> m'" by (cases m) auto
    show ?case unfolding m
      by (simp only:
            parse_stmt_list.simps parse_stmt_list_loop.simps parse_stmt.simps parse_if.simps
            parse_do.simps parse_guard_list.simps parse_guard_list_loop.simps parse_guard.simps Let_def,
          intro stable_refl stable_if stable_case_option stable_and_then IH [OF le]
            expr_fuel_mono(1) [OF le] assignment_fuel_mono [OF le])
  }
  {
    case 3
    then obtain m' where m: "m = Suc m'" and le: "n \<le> m'" by (cases m) auto
    show ?case unfolding m
      by (simp only:
            parse_stmt_list.simps parse_stmt_list_loop.simps parse_stmt.simps parse_if.simps
            parse_do.simps parse_guard_list.simps parse_guard_list_loop.simps parse_guard.simps Let_def,
          intro stable_refl stable_if stable_case_option stable_and_then IH [OF le]
            expr_fuel_mono(1) [OF le] assignment_fuel_mono [OF le])
  }
  {
    case 4
    then obtain m' where m: "m = Suc m'" and le: "n \<le> m'" by (cases m) auto
    show ?case unfolding m
      by (simp only:
            parse_stmt_list.simps parse_stmt_list_loop.simps parse_stmt.simps parse_if.simps
            parse_do.simps parse_guard_list.simps parse_guard_list_loop.simps parse_guard.simps Let_def,
          intro stable_refl stable_if stable_case_option stable_and_then IH [OF le]
            expr_fuel_mono(1) [OF le] assignment_fuel_mono [OF le])
  }
  {
    case 5
    then obtain m' where m: "m = Suc m'" and le: "n \<le> m'" by (cases m) auto
    show ?case unfolding m
      by (simp only:
            parse_stmt_list.simps parse_stmt_list_loop.simps parse_stmt.simps parse_if.simps
            parse_do.simps parse_guard_list.simps parse_guard_list_loop.simps parse_guard.simps Let_def,
          intro stable_refl stable_if stable_case_option stable_and_then IH [OF le]
            expr_fuel_mono(1) [OF le] assignment_fuel_mono [OF le])
  }
  {
    case 6
    then obtain m' where m: "m = Suc m'" and le: "n \<le> m'" by (cases m) auto
    show ?case unfolding m
      by (simp only:
            parse_stmt_list.simps parse_stmt_list_loop.simps parse_stmt.simps parse_if.simps
            parse_do.simps parse_guard_list.simps parse_guard_list_loop.simps parse_guard.simps Let_def,
          intro stable_refl stable_if stable_case_option stable_and_then IH [OF le]
            expr_fuel_mono(1) [OF le] assignment_fuel_mono [OF le])
  }
  {
    case 7
    then obtain m' where m: "m = Suc m'" and le: "n \<le> m'" by (cases m) auto
    show ?case unfolding m
      by (simp only:
            parse_stmt_list.simps parse_stmt_list_loop.simps parse_stmt.simps parse_if.simps
            parse_do.simps parse_guard_list.simps parse_guard_list_loop.simps parse_guard.simps Let_def,
          intro stable_refl stable_if stable_case_option stable_and_then IH [OF le]
            expr_fuel_mono(1) [OF le] assignment_fuel_mono [OF le])
  }
  {
    case 8
    then obtain m' where m: "m = Suc m'" and le: "n \<le> m'" by (cases m) auto
    show ?case unfolding m
      by (simp only:
            parse_stmt_list.simps parse_stmt_list_loop.simps parse_stmt.simps parse_if.simps
            parse_do.simps parse_guard_list.simps parse_guard_list_loop.simps parse_guard.simps Let_def,
          intro stable_refl stable_if stable_case_option stable_and_then IH [OF le]
            expr_fuel_mono(1) [OF le] assignment_fuel_mono [OF le])
  }
qed

lemma program_fuel_mono:
  "n \<le> m \<Longrightarrow> stable (parse_program R n d P) (parse_program R m d P)"
  unfolding parse_program_def
  by (intro stable_if stable_and_then stable_refl stmt_fuel_mono(1))

subsection \<open>More room changes no result but \<open>RecursionError\<close>\<close>








lemma room_stable_Some:
  "room_stable a b \<Longrightarrow> a = Some v \<Longrightarrow> v \<noteq> Inl RecursionError \<Longrightarrow> b = Some v"
  by (auto simp: room_stable_def recursion_error_def)





subsection \<open>The read position only grows\<close>

lemma movedD:
  "moved k P r \<Longrightarrow> r = Some (Inr (x, P')) \<Longrightarrow>
     tokens P' = tokens P \<and> pos P + k \<le> pos P' \<and> pos P' \<le> max (pos P) (length (tokens P))"
  unfolding moved_def by blast

lemma movedI:
  "(\<And>x P'. r = Some (Inr (x, P')) \<Longrightarrow>
      tokens P' = tokens P \<and> pos P + k \<le> pos P' \<and> pos P' \<le> max (pos P) (length (tokens P)))
   \<Longrightarrow> moved k P r"
  unfolding moved_def by blast

lemma and_then_Inr:
  assumes "and_then a f = Some (Inr r)"
  obtains y P1 where "a = Some (Inr (y, P1))" and "f y P1 = Some (Inr r)"
proof (cases a)
  case None
  with assms show ?thesis by (simp add: and_then_def)
next
  case (Some v)
  show ?thesis
  proof (cases v)
    case (Inl e)
    with Some assms show ?thesis by (simp add: and_then_def)
  next
    case (Inr yp)
    obtain y P1 where "yp = (y, P1)" by (cases yp)
    with Inr Some assms that show ?thesis by (simp add: and_then_def)
  qed
qed

lemma moved_weaken: "moved 1 P r \<Longrightarrow> moved 0 P r"
proof (rule movedI)
  fix x P' assume "moved 1 P r" and "r = Some (Inr (x, P'))"
  from movedD [OF this] show "tokens P' = tokens P \<and> pos P + 0 \<le> pos P'
      \<and> pos P' \<le> max (pos P) (length (tokens P))" by simp
qed

lemma moved_None: "moved k P None"
  by (rule movedI) simp

lemma moved_Inl: "moved k P (Some (Inl e))"
  by (rule movedI) simp

lemma moved_error: "moved k P recursion_error"
  by (rule movedI) (simp add: recursion_error_def)

lemma moved_raise: "moved k P (raise msg tok)"
  by (rule movedI) (simp add: raise_def)

lemma moved_return: "moved 0 P (return x P)"
  by (rule movedI) (simp add: return_def)

lemma moved_if:
  "(c \<Longrightarrow> moved k P a) \<Longrightarrow> (\<not> c \<Longrightarrow> moved k P b) \<Longrightarrow> moved k P (if c then a else b)"
  by (cases c) simp_all

lemma moved_case_option:
  "(opt = None \<Longrightarrow> moved k P a) \<Longrightarrow> (\<And>v. opt = Some v \<Longrightarrow> moved k P (f v))
     \<Longrightarrow> moved k P (case opt of None \<Rightarrow> a | Some v \<Rightarrow> f v)"
  by (cases opt) simp_all

lemma moved_and_then:
  assumes "moved j P a" and "\<And>x P1. moved 0 P1 (f x P1)"
  shows "moved j P (and_then a f)"
proof (rule movedI)
  fix x P' assume "and_then a f = Some (Inr (x, P'))"
  then obtain y P1 where a: "a = Some (Inr (y, P1))" and f: "f y P1 = Some (Inr (x, P'))"
    by (rule and_then_Inr)
  from movedD [OF assms(1) a] movedD [OF assms(2) f]
  show "tokens P' = tokens P \<and> pos P + j \<le> pos P'
      \<and> pos P' \<le> max (pos P) (length (tokens P))"
    by (simp add: max_def split: if_splits)
qed

lemmas moved_and_then_1 = moved_and_then [where j = 1]

lemmas moved_and_then_0 = moved_and_then [where j = 0]

lemma consumed_Inr:
  assumes "consumed (consume P et ev) = Some (Inr (x, P'))"
  shows "x = peek P \<and> P' = P\<lparr>pos := pos P + 1\<rparr>
         \<and> (truthy et \<longrightarrow> tok_type (peek P) = the et)
         \<and> (truthy ev \<longrightarrow> tok_value (peek P) = the ev)"
proof -
  have "consume P et ev = (Inr x, P')"
    using assms by (cases "consume P et ev") (auto simp: consumed_def split: sum.splits)
  then show ?thesis
    by (simp add: consume_def Let_def split: if_splits)
qed

lemma call_consume_Inr:
  assumes "call_consume d P et ev = Some (Inr (x, P'))"
  shows "2 \<le> d \<and> x = peek P \<and> P' = P\<lparr>pos := pos P + 1\<rparr>
         \<and> (truthy et \<longrightarrow> tok_type (peek P) = the et)
         \<and> (truthy ev \<longrightarrow> tok_value (peek P) = the ev)"
proof (cases "d < 2")
  case True
  with assms show ?thesis by (simp add: call_consume_def recursion_error_def)
next
  case False
  with assms have "consumed (consume P et ev) = Some (Inr (x, P'))"
    by (simp add: call_consume_def)
  from consumed_Inr [OF this] False show ?thesis by simp
qed

lemma moved_consume:
  assumes "T \<noteq> []" and "T \<noteq> ascii ''EOF''"
  shows "moved 1 P (call_consume d P (Some T) ev)"
proof (rule movedI)
  fix x P' assume "call_consume d P (Some T) ev = Some (Inr (x, P'))"
  from call_consume_Inr [OF this] assms(1)
  have P': "P' = P\<lparr>pos := pos P + 1\<rparr>" and T: "tok_type (peek P) = T"
    by (simp_all add: truthy_def)
  from T assms(2) have "pos P < length (tokens P)"
    by (cases "pos P < length (tokens P)") (simp_all add: peek_def EOF_token_def)
  with P' show "tokens P' = tokens P \<and> pos P + 1 \<le> pos P'
      \<and> pos P' \<le> max (pos P) (length (tokens P))" by simp
qed

lemma moved_consumes:
  shows "moved 1 P (call_consume d P (Some (ascii ''OP'')) ev)"
    and "moved 1 P (call_consume d P (Some (ascii ''NUMBER'')) ev)"
    and "moved 1 P (call_consume d P (Some (ascii ''IDENT'')) ev)"
    and "moved 1 P (call_consume d P (Some (ascii ''LPAREN'')) ev)"
    and "moved 1 P (call_consume d P (Some (ascii ''RPAREN'')) ev)"
    and "moved 1 P (call_consume d P (Some (ascii ''SEMI'')) ev)"
    and "moved 1 P (call_consume d P (Some (ascii ''KEYWORD'')) ev)"
    and "moved 1 P (call_consume d P (Some (ascii ''BAR'')) ev)"
    and "moved 1 P (call_consume d P (Some (ascii ''ARROW'')) ev)"
    and "moved 1 P (call_consume d P (Some (ascii ''ASSIGN'')) ev)"
  by (rule moved_consume; simp add: ascii_def)+

lemmas moved_consumes_0 = moved_consumes [THEN moved_weaken]

lemma expr_moved:
  shows "moved 1 P (parse_expr R n d P)"
    and "moved 1 P (parse_equality R n d P)"
    and "moved 0 P (parse_equality_loop R n d left P)"
    and "moved 1 P (parse_relational R n d P)"
    and "moved 0 P (parse_relational_loop R n d left P)"
    and "moved 1 P (parse_additive R n d P)"
    and "moved 0 P (parse_additive_loop R n d left P)"
    and "moved 1 P (parse_term R n d P)"
    and "moved 0 P (parse_term_loop R n d left P)"
    and "moved 1 P (parse_factor R n d P)"
proof (induction n arbitrary: d P left)
  case 0
  {
    case 1
    show ?case by (simp add: moved_None)
  }
  {
    case 2
    show ?case by (simp add: moved_None)
  }
  {
    case 3
    show ?case by (simp add: moved_None)
  }
  {
    case 4
    show ?case by (simp add: moved_None)
  }
  {
    case 5
    show ?case by (simp add: moved_None)
  }
  {
    case 6
    show ?case by (simp add: moved_None)
  }
  {
    case 7
    show ?case by (simp add: moved_None)
  }
  {
    case 8
    show ?case by (simp add: moved_None)
  }
  {
    case 9
    show ?case by (simp add: moved_None)
  }
  {
    case 10
    show ?case by (simp add: moved_None)
  }
next
  case (Suc n)
  note IH = Suc.IH
  note IH0 = IH(1) [THEN moved_weaken] IH(2) [THEN moved_weaken] IH(4) [THEN moved_weaken]
  IH(6) [THEN moved_weaken] IH(8) [THEN moved_weaken] IH(10) [THEN moved_weaken]
  {
    case 1
    show ?case
      by (simp only:
            parse_expr.simps parse_equality.simps parse_equality_loop.simps
            parse_relational.simps parse_relational_loop.simps parse_additive.simps
            parse_additive_loop.simps parse_term.simps parse_term_loop.simps parse_factor.simps
            Let_def,
          intro moved_if moved_case_option moved_and_then_1 moved_and_then_0 moved_return
          moved_raise moved_error moved_Inl moved_consumes moved_consumes_0 IH IH0)
  }
  {
    case 2
    show ?case
      by (simp only:
            parse_expr.simps parse_equality.simps parse_equality_loop.simps
            parse_relational.simps parse_relational_loop.simps parse_additive.simps
            parse_additive_loop.simps parse_term.simps parse_term_loop.simps parse_factor.simps
            Let_def,
          intro moved_if moved_case_option moved_and_then_1 moved_and_then_0 moved_return
          moved_raise moved_error moved_Inl moved_consumes moved_consumes_0 IH IH0)
  }
  {
    case 3
    show ?case
      by (simp only:
            parse_expr.simps parse_equality.simps parse_equality_loop.simps
            parse_relational.simps parse_relational_loop.simps parse_additive.simps
            parse_additive_loop.simps parse_term.simps parse_term_loop.simps parse_factor.simps
            Let_def,
          intro moved_if moved_case_option moved_and_then_0 moved_and_then_0 moved_return
          moved_raise moved_error moved_Inl moved_consumes moved_consumes_0 IH IH0)
  }
  {
    case 4
    show ?case
      by (simp only:
            parse_expr.simps parse_equality.simps parse_equality_loop.simps
            parse_relational.simps parse_relational_loop.simps parse_additive.simps
            parse_additive_loop.simps parse_term.simps parse_term_loop.simps parse_factor.simps
            Let_def,
          intro moved_if moved_case_option moved_and_then_1 moved_and_then_0 moved_return
          moved_raise moved_error moved_Inl moved_consumes moved_consumes_0 IH IH0)
  }
  {
    case 5
    show ?case
      by (simp only:
            parse_expr.simps parse_equality.simps parse_equality_loop.simps
            parse_relational.simps parse_relational_loop.simps parse_additive.simps
            parse_additive_loop.simps parse_term.simps parse_term_loop.simps parse_factor.simps
            Let_def,
          intro moved_if moved_case_option moved_and_then_0 moved_and_then_0 moved_return
          moved_raise moved_error moved_Inl moved_consumes moved_consumes_0 IH IH0)
  }
  {
    case 6
    show ?case
      by (simp only:
            parse_expr.simps parse_equality.simps parse_equality_loop.simps
            parse_relational.simps parse_relational_loop.simps parse_additive.simps
            parse_additive_loop.simps parse_term.simps parse_term_loop.simps parse_factor.simps
            Let_def,
          intro moved_if moved_case_option moved_and_then_1 moved_and_then_0 moved_return
          moved_raise moved_error moved_Inl moved_consumes moved_consumes_0 IH IH0)
  }
  {
    case 7
    show ?case
      by (simp only:
            parse_expr.simps parse_equality.simps parse_equality_loop.simps
            parse_relational.simps parse_relational_loop.simps parse_additive.simps
            parse_additive_loop.simps parse_term.simps parse_term_loop.simps parse_factor.simps
            Let_def,
          intro moved_if moved_case_option moved_and_then_0 moved_and_then_0 moved_return
          moved_raise moved_error moved_Inl moved_consumes moved_consumes_0 IH IH0)
  }
  {
    case 8
    show ?case
      by (simp only:
            parse_expr.simps parse_equality.simps parse_equality_loop.simps
            parse_relational.simps parse_relational_loop.simps parse_additive.simps
            parse_additive_loop.simps parse_term.simps parse_term_loop.simps parse_factor.simps
            Let_def,
          intro moved_if moved_case_option moved_and_then_1 moved_and_then_0 moved_return
          moved_raise moved_error moved_Inl moved_consumes moved_consumes_0 IH IH0)
  }
  {
    case 9
    show ?case
      by (simp only:
            parse_expr.simps parse_equality.simps parse_equality_loop.simps
            parse_relational.simps parse_relational_loop.simps parse_additive.simps
            parse_additive_loop.simps parse_term.simps parse_term_loop.simps parse_factor.simps
            Let_def,
          intro moved_if moved_case_option moved_and_then_0 moved_and_then_0 moved_return
          moved_raise moved_error moved_Inl moved_consumes moved_consumes_0 IH IH0)
  }
  {
    case 10
    show ?case
      by (simp only:
            parse_expr.simps parse_equality.simps parse_equality_loop.simps
            parse_relational.simps parse_relational_loop.simps parse_additive.simps
            parse_additive_loop.simps parse_term.simps parse_term_loop.simps parse_factor.simps
            Let_def,
          intro moved_if moved_case_option moved_and_then_1 moved_and_then_0 moved_return
          moved_raise moved_error moved_Inl moved_consumes moved_consumes_0 IH IH0)
  }
qed

lemma assignment_moved: "moved 1 P (parse_assignment R n d P)"
  unfolding parse_assignment_def
  by (intro moved_if moved_and_then_1 moved_and_then_0 moved_return moved_raise moved_error
        moved_consumes moved_consumes_0 expr_moved(1) [THEN moved_weaken])

lemma stmt_moved:
  shows "moved 0 P (parse_stmt_list R n d P)"
    and "moved 0 P (parse_stmt_list_loop R n d acc P)"
    and "moved 1 P (parse_stmt R n d P)"
    and "moved 1 P (parse_if R n d P)"
    and "moved 1 P (parse_do R n d P)"
    and "moved 1 P (parse_guard_list R n d P)"
    and "moved 0 P (parse_guard_list_loop R n d gs P)"
    and "moved 1 P (parse_guard R n d P)"
proof (induction n arbitrary: d P acc gs)
  case 0
  {
    case 1
    show ?case by (simp add: moved_None)
  }
  {
    case 2
    show ?case by (simp add: moved_None)
  }
  {
    case 3
    show ?case by (simp add: moved_None)
  }
  {
    case 4
    show ?case by (simp add: moved_None)
  }
  {
    case 5
    show ?case by (simp add: moved_None)
  }
  {
    case 6
    show ?case by (simp add: moved_None)
  }
  {
    case 7
    show ?case by (simp add: moved_None)
  }
  {
    case 8
    show ?case by (simp add: moved_None)
  }
next
  case (Suc n)
  note IH = Suc.IH
  note IH0 = IH(3) [THEN moved_weaken] IH(4) [THEN moved_weaken] IH(5) [THEN moved_weaken]
  IH(6) [THEN moved_weaken] IH(8) [THEN moved_weaken]
  {
    case 1
    show ?case
      by (simp only:
            parse_stmt_list.simps parse_stmt_list_loop.simps parse_stmt.simps parse_if.simps
            parse_do.simps parse_guard_list.simps parse_guard_list_loop.simps parse_guard.simps
            Let_def,
          intro moved_if moved_case_option moved_and_then_0 moved_and_then_0 moved_return
          moved_raise moved_error moved_Inl moved_consumes moved_consumes_0 IH IH0
          expr_moved(1) expr_moved(1) [THEN moved_weaken] assignment_moved assignment_moved
          [THEN moved_weaken])
  }
  {
    case 2
    show ?case
      by (simp only:
            parse_stmt_list.simps parse_stmt_list_loop.simps parse_stmt.simps parse_if.simps
            parse_do.simps parse_guard_list.simps parse_guard_list_loop.simps parse_guard.simps
            Let_def,
          intro moved_if moved_case_option moved_and_then_0 moved_and_then_0 moved_return
          moved_raise moved_error moved_Inl moved_consumes moved_consumes_0 IH IH0
          expr_moved(1) expr_moved(1) [THEN moved_weaken] assignment_moved assignment_moved
          [THEN moved_weaken])
  }
  {
    case 3
    show ?case
      by (simp only:
            parse_stmt_list.simps parse_stmt_list_loop.simps parse_stmt.simps parse_if.simps
            parse_do.simps parse_guard_list.simps parse_guard_list_loop.simps parse_guard.simps
            Let_def,
          intro moved_if moved_case_option moved_and_then_1 moved_and_then_0 moved_return
          moved_raise moved_error moved_Inl moved_consumes moved_consumes_0 IH IH0
          expr_moved(1) expr_moved(1) [THEN moved_weaken] assignment_moved assignment_moved
          [THEN moved_weaken])
  }
  {
    case 4
    show ?case
      by (simp only:
            parse_stmt_list.simps parse_stmt_list_loop.simps parse_stmt.simps parse_if.simps
            parse_do.simps parse_guard_list.simps parse_guard_list_loop.simps parse_guard.simps
            Let_def,
          intro moved_if moved_case_option moved_and_then_1 moved_and_then_0 moved_return
          moved_raise moved_error moved_Inl moved_consumes moved_consumes_0 IH IH0
          expr_moved(1) expr_moved(1) [THEN moved_weaken] assignment_moved assignment_moved
          [THEN moved_weaken])
  }
  {
    case 5
    show ?case
      by (simp only:
            parse_stmt_list.simps parse_stmt_list_loop.simps parse_stmt.simps parse_if.simps
            parse_do.simps parse_guard_list.simps parse_guard_list_loop.simps parse_guard.simps
            Let_def,
          intro moved_if moved_case_option moved_and_then_1 moved_and_then_0 moved_return
          moved_raise moved_error moved_Inl moved_consumes moved_consumes_0 IH IH0
          expr_moved(1) expr_moved(1) [THEN moved_weaken] assignment_moved assignment_moved
          [THEN moved_weaken])
  }
  {
    case 6
    show ?case
      by (simp only:
            parse_stmt_list.simps parse_stmt_list_loop.simps parse_stmt.simps parse_if.simps
            parse_do.simps parse_guard_list.simps parse_guard_list_loop.simps parse_guard.simps
            Let_def,
          intro moved_if moved_case_option moved_and_then_1 moved_and_then_0 moved_return
          moved_raise moved_error moved_Inl moved_consumes moved_consumes_0 IH IH0
          expr_moved(1) expr_moved(1) [THEN moved_weaken] assignment_moved assignment_moved
          [THEN moved_weaken])
  }
  {
    case 7
    show ?case
      by (simp only:
            parse_stmt_list.simps parse_stmt_list_loop.simps parse_stmt.simps parse_if.simps
            parse_do.simps parse_guard_list.simps parse_guard_list_loop.simps parse_guard.simps
            Let_def,
          intro moved_if moved_case_option moved_and_then_0 moved_and_then_0 moved_return
          moved_raise moved_error moved_Inl moved_consumes moved_consumes_0 IH IH0
          expr_moved(1) expr_moved(1) [THEN moved_weaken] assignment_moved assignment_moved
          [THEN moved_weaken])
  }
  {
    case 8
    show ?case
      by (simp only:
            parse_stmt_list.simps parse_stmt_list_loop.simps parse_stmt.simps parse_if.simps
            parse_do.simps parse_guard_list.simps parse_guard_list_loop.simps parse_guard.simps
            Let_def,
          intro moved_if moved_case_option moved_and_then_1 moved_and_then_0 moved_return
          moved_raise moved_error moved_Inl moved_consumes moved_consumes_0 IH IH0
          expr_moved(1) expr_moved(1) [THEN moved_weaken] assignment_moved assignment_moved
          [THEN moved_weaken])
  }
qed

lemma program_moved: "moved 0 P (parse_program R n d P)"
  unfolding parse_program_def
  by (intro moved_if moved_error moved_and_then_0 moved_return stmt_moved(1))

subsection \<open>The bound of \<open>parse_tokens\<close> is never used up\<close>

lemma returns_return: "returns (return x P)" by (simp add: returns_def return_def)

lemma returns_raise: "returns (raise msg tok)" by (simp add: returns_def raise_def)

lemma returns_error: "returns recursion_error" by (simp add: returns_def recursion_error_def)

lemma returns_Some: "returns (Some v)" by (simp add: returns_def)

lemma returns_call_consume: "returns (call_consume d P et ev)"
  by (cases "consume P et ev")
     (auto simp: returns_def call_consume_def recursion_error_def consumed_def split: sum.splits)

lemma returns_if:
  "(c \<Longrightarrow> returns a) \<Longrightarrow> (\<not> c \<Longrightarrow> returns b) \<Longrightarrow> returns (if c then a else b)"
  by (cases c) simp_all

lemma returns_case_option:
  "(opt = None \<Longrightarrow> returns a) \<Longrightarrow> (\<And>v. opt = Some v \<Longrightarrow> returns (f v))
     \<Longrightarrow> returns (case opt of None \<Rightarrow> a | Some v \<Rightarrow> f v)"
  by (cases opt) simp_all

lemma returns_and_then:
  assumes "returns a" and "moved k P a"
    and "\<And>x P1. remaining P1 + k \<le> remaining P \<Longrightarrow> returns (f x P1)"
  shows "returns (and_then a f)"
proof (cases a)
  case None
  with assms(1) show ?thesis by (simp add: returns_def)
next
  case (Some v)
  show ?thesis
  proof (cases v)
    case (Inl e)
    with Some show ?thesis by (simp add: and_then_def returns_def)
  next
    case (Inr yp)
    obtain y P1 where yp: "yp = (y, P1)" by (cases yp)
    from movedD [OF assms(2)] Some Inr yp
    have "tokens P1 = tokens P \<and> pos P + k \<le> pos P1
        \<and> pos P1 \<le> max (pos P) (length (tokens P))" by simp
    then have "remaining P1 + k \<le> remaining P"
      unfolding remaining_def max_def by (cases "pos P \<le> length (tokens P)") auto
    from assms(3) [OF this] Some Inr yp show ?thesis by (simp add: and_then_def)
  qed
qed

lemma returns_after_guard_arrow:
  assumes "\<And>x P1. remaining P1 + 0 \<le> remaining P \<Longrightarrow> returns (f x P1)"
  shows "returns (and_then (if c then call_consume d P (Some (ascii ''ARROW'')) ev
                           else raise msg tok) f)"
proof (rule returns_and_then [where k = 0 and P = P])
  show "returns (if c then call_consume d P (Some (ascii ''ARROW'')) ev else raise msg tok)"
    by (intro returns_if returns_call_consume returns_raise)
  show "moved 0 P (if c then call_consume d P (Some (ascii ''ARROW'')) ev else raise msg tok)"
    by (intro moved_if moved_consumes_0 moved_raise)
  fix x P1
  assume "remaining P1 + 0 \<le> remaining P"
  then show "returns (f x P1)" by (rule assms)
qed

lemmas returns_after_consume =
  returns_and_then [OF returns_call_consume moved_consumes(1)]
  returns_and_then [OF returns_call_consume moved_consumes(2)]
  returns_and_then [OF returns_call_consume moved_consumes(3)]
  returns_and_then [OF returns_call_consume moved_consumes(4)]
  returns_and_then [OF returns_call_consume moved_consumes(5)]
  returns_and_then [OF returns_call_consume moved_consumes(6)]
  returns_and_then [OF returns_call_consume moved_consumes(7)]
  returns_and_then [OF returns_call_consume moved_consumes(8)]
  returns_and_then [OF returns_call_consume moved_consumes(9)]
  returns_and_then [OF returns_call_consume moved_consumes(10)]

lemmas returns_after_expr =
  returns_and_then [OF _ expr_moved(1)]
  returns_and_then [OF _ expr_moved(2)]
  returns_and_then [OF _ expr_moved(3)]
  returns_and_then [OF _ expr_moved(4)]
  returns_and_then [OF _ expr_moved(5)]
  returns_and_then [OF _ expr_moved(6)]
  returns_and_then [OF _ expr_moved(7)]
  returns_and_then [OF _ expr_moved(8)]
  returns_and_then [OF _ expr_moved(9)]
  returns_and_then [OF _ expr_moved(10)]

lemma expr_returns:
  shows "6 + 8 * remaining P \<le> n \<Longrightarrow> returns (parse_expr R n d P)"
    and "5 + 8 * remaining P \<le> n \<Longrightarrow> returns (parse_equality R n d P)"
    and "1 + 8 * remaining P \<le> n \<Longrightarrow> returns (parse_equality_loop R n d left P)"
    and "4 + 8 * remaining P \<le> n \<Longrightarrow> returns (parse_relational R n d P)"
    and "1 + 8 * remaining P \<le> n \<Longrightarrow> returns (parse_relational_loop R n d left P)"
    and "3 + 8 * remaining P \<le> n \<Longrightarrow> returns (parse_additive R n d P)"
    and "1 + 8 * remaining P \<le> n \<Longrightarrow> returns (parse_additive_loop R n d left P)"
    and "2 + 8 * remaining P \<le> n \<Longrightarrow> returns (parse_term R n d P)"
    and "1 + 8 * remaining P \<le> n \<Longrightarrow> returns (parse_term_loop R n d left P)"
    and "1 + 8 * remaining P \<le> n \<Longrightarrow> returns (parse_factor R n d P)"
proof (induction n arbitrary: d P left)
  case 0
  {
    case 1
    then show ?case by simp
  }
  {
    case 2
    then show ?case by simp
  }
  {
    case 3
    then show ?case by simp
  }
  {
    case 4
    then show ?case by simp
  }
  {
    case 5
    then show ?case by simp
  }
  {
    case 6
    then show ?case by simp
  }
  {
    case 7
    then show ?case by simp
  }
  {
    case 8
    then show ?case by simp
  }
  {
    case 9
    then show ?case by simp
  }
  {
    case 10
    then show ?case by simp
  }
next
  case (Suc n)
  note IH = Suc.IH
  {
    case 1
    then show ?case
      by (simp only:
            parse_expr.simps parse_equality.simps parse_equality_loop.simps
            parse_relational.simps parse_relational_loop.simps parse_additive.simps
            parse_additive_loop.simps parse_term.simps parse_term_loop.simps parse_factor.simps
            Let_def)
         (intro returns_if returns_case_option returns_after_consume returns_after_guard_arrow
         returns_after_expr returns_return returns_raise returns_error returns_Some
         returns_call_consume IH;
            linarith)
  }
  {
    case 2
    then show ?case
      by (simp only:
            parse_expr.simps parse_equality.simps parse_equality_loop.simps
            parse_relational.simps parse_relational_loop.simps parse_additive.simps
            parse_additive_loop.simps parse_term.simps parse_term_loop.simps parse_factor.simps
            Let_def)
         (intro returns_if returns_case_option returns_after_consume returns_after_guard_arrow
         returns_after_expr returns_return returns_raise returns_error returns_Some
         returns_call_consume IH;
            linarith)
  }
  {
    case 3
    then show ?case
      by (simp only:
            parse_expr.simps parse_equality.simps parse_equality_loop.simps
            parse_relational.simps parse_relational_loop.simps parse_additive.simps
            parse_additive_loop.simps parse_term.simps parse_term_loop.simps parse_factor.simps
            Let_def)
         (intro returns_if returns_case_option returns_after_consume returns_after_guard_arrow
         returns_after_expr returns_return returns_raise returns_error returns_Some
         returns_call_consume IH;
            linarith)
  }
  {
    case 4
    then show ?case
      by (simp only:
            parse_expr.simps parse_equality.simps parse_equality_loop.simps
            parse_relational.simps parse_relational_loop.simps parse_additive.simps
            parse_additive_loop.simps parse_term.simps parse_term_loop.simps parse_factor.simps
            Let_def)
         (intro returns_if returns_case_option returns_after_consume returns_after_guard_arrow
         returns_after_expr returns_return returns_raise returns_error returns_Some
         returns_call_consume IH;
            linarith)
  }
  {
    case 5
    then show ?case
      by (simp only:
            parse_expr.simps parse_equality.simps parse_equality_loop.simps
            parse_relational.simps parse_relational_loop.simps parse_additive.simps
            parse_additive_loop.simps parse_term.simps parse_term_loop.simps parse_factor.simps
            Let_def)
         (intro returns_if returns_case_option returns_after_consume returns_after_guard_arrow
         returns_after_expr returns_return returns_raise returns_error returns_Some
         returns_call_consume IH;
            linarith)
  }
  {
    case 6
    then show ?case
      by (simp only:
            parse_expr.simps parse_equality.simps parse_equality_loop.simps
            parse_relational.simps parse_relational_loop.simps parse_additive.simps
            parse_additive_loop.simps parse_term.simps parse_term_loop.simps parse_factor.simps
            Let_def)
         (intro returns_if returns_case_option returns_after_consume returns_after_guard_arrow
         returns_after_expr returns_return returns_raise returns_error returns_Some
         returns_call_consume IH;
            linarith)
  }
  {
    case 7
    then show ?case
      by (simp only:
            parse_expr.simps parse_equality.simps parse_equality_loop.simps
            parse_relational.simps parse_relational_loop.simps parse_additive.simps
            parse_additive_loop.simps parse_term.simps parse_term_loop.simps parse_factor.simps
            Let_def)
         (intro returns_if returns_case_option returns_after_consume returns_after_guard_arrow
         returns_after_expr returns_return returns_raise returns_error returns_Some
         returns_call_consume IH;
            linarith)
  }
  {
    case 8
    then show ?case
      by (simp only:
            parse_expr.simps parse_equality.simps parse_equality_loop.simps
            parse_relational.simps parse_relational_loop.simps parse_additive.simps
            parse_additive_loop.simps parse_term.simps parse_term_loop.simps parse_factor.simps
            Let_def)
         (intro returns_if returns_case_option returns_after_consume returns_after_guard_arrow
         returns_after_expr returns_return returns_raise returns_error returns_Some
         returns_call_consume IH;
            linarith)
  }
  {
    case 9
    then show ?case
      by (simp only:
            parse_expr.simps parse_equality.simps parse_equality_loop.simps
            parse_relational.simps parse_relational_loop.simps parse_additive.simps
            parse_additive_loop.simps parse_term.simps parse_term_loop.simps parse_factor.simps
            Let_def)
         (intro returns_if returns_case_option returns_after_consume returns_after_guard_arrow
         returns_after_expr returns_return returns_raise returns_error returns_Some
         returns_call_consume IH;
            linarith)
  }
  {
    case 10
    then show ?case
      by (simp only:
            parse_expr.simps parse_equality.simps parse_equality_loop.simps
            parse_relational.simps parse_relational_loop.simps parse_additive.simps
            parse_additive_loop.simps parse_term.simps parse_term_loop.simps parse_factor.simps
            Let_def)
         (intro returns_if returns_case_option returns_after_consume returns_after_guard_arrow
         returns_after_expr returns_return returns_raise returns_error returns_Some
         returns_call_consume IH;
            linarith)
  }
qed

lemma assignment_returns:
  assumes "8 * remaining P \<le> n"
  shows "returns (parse_assignment R n d P)"
  using assms unfolding parse_assignment_def
  by (intro returns_if returns_after_consume returns_after_expr returns_return returns_raise
        returns_error expr_returns(1); linarith)

lemmas returns_after_stmt =
  returns_and_then [OF _ stmt_moved(1)]
  returns_and_then [OF _ stmt_moved(2)]
  returns_and_then [OF _ stmt_moved(3)]
  returns_and_then [OF _ stmt_moved(4)]
  returns_and_then [OF _ stmt_moved(5)]
  returns_and_then [OF _ stmt_moved(6)]
  returns_and_then [OF _ stmt_moved(7)]
  returns_and_then [OF _ stmt_moved(8)]

lemmas returns_after_assignment = returns_and_then [OF _ assignment_moved]

lemma stmt_returns:
  shows "4 + 8 * remaining P \<le> n \<Longrightarrow> returns (parse_stmt_list R n d P)"
    and "3 + 8 * remaining P \<le> n \<Longrightarrow> returns (parse_stmt_list_loop R n d acc P)"
    and "2 + 8 * remaining P \<le> n \<Longrightarrow> returns (parse_stmt R n d P)"
    and "1 + 8 * remaining P \<le> n \<Longrightarrow> returns (parse_if R n d P)"
    and "1 + 8 * remaining P \<le> n \<Longrightarrow> returns (parse_do R n d P)"
    and "8 + 8 * remaining P \<le> n \<Longrightarrow> returns (parse_guard_list R n d P)"
    and "1 + 8 * remaining P \<le> n \<Longrightarrow> returns (parse_guard_list_loop R n d gs P)"
    and "7 + 8 * remaining P \<le> n \<Longrightarrow> returns (parse_guard R n d P)"
proof (induction n arbitrary: d P acc gs)
  case 0
  {
    case 1
    then show ?case by simp
  }
  {
    case 2
    then show ?case by simp
  }
  {
    case 3
    then show ?case by simp
  }
  {
    case 4
    then show ?case by simp
  }
  {
    case 5
    then show ?case by simp
  }
  {
    case 6
    then show ?case by simp
  }
  {
    case 7
    then show ?case by simp
  }
  {
    case 8
    then show ?case by simp
  }
next
  case (Suc n)
  note IH = Suc.IH
  {
    case 1
    then show ?case
      by (simp only:
            parse_stmt_list.simps parse_stmt_list_loop.simps parse_stmt.simps parse_if.simps
            parse_do.simps parse_guard_list.simps parse_guard_list_loop.simps parse_guard.simps
            Let_def)
         (intro returns_if returns_case_option returns_after_consume returns_after_guard_arrow
         returns_after_expr returns_after_stmt returns_after_assignment expr_returns(1)
         assignment_returns returns_return returns_raise returns_error returns_Some
         returns_call_consume IH;
            linarith)
  }
  {
    case 2
    then show ?case
      by (simp only:
            parse_stmt_list.simps parse_stmt_list_loop.simps parse_stmt.simps parse_if.simps
            parse_do.simps parse_guard_list.simps parse_guard_list_loop.simps parse_guard.simps
            Let_def)
         (intro returns_if returns_case_option returns_after_consume returns_after_guard_arrow
         returns_after_expr returns_after_stmt returns_after_assignment expr_returns(1)
         assignment_returns returns_return returns_raise returns_error returns_Some
         returns_call_consume IH;
            linarith)
  }
  {
    case 3
    then show ?case
      by (simp only:
            parse_stmt_list.simps parse_stmt_list_loop.simps parse_stmt.simps parse_if.simps
            parse_do.simps parse_guard_list.simps parse_guard_list_loop.simps parse_guard.simps
            Let_def)
         (intro returns_if returns_case_option returns_after_consume returns_after_guard_arrow
         returns_after_expr returns_after_stmt returns_after_assignment expr_returns(1)
         assignment_returns returns_return returns_raise returns_error returns_Some
         returns_call_consume IH;
            linarith)
  }
  {
    case 4
    then show ?case
      by (simp only:
            parse_stmt_list.simps parse_stmt_list_loop.simps parse_stmt.simps parse_if.simps
            parse_do.simps parse_guard_list.simps parse_guard_list_loop.simps parse_guard.simps
            Let_def)
         (intro returns_if returns_case_option returns_after_consume returns_after_guard_arrow
         returns_after_expr returns_after_stmt returns_after_assignment expr_returns(1)
         assignment_returns returns_return returns_raise returns_error returns_Some
         returns_call_consume IH;
            linarith)
  }
  {
    case 5
    then show ?case
      by (simp only:
            parse_stmt_list.simps parse_stmt_list_loop.simps parse_stmt.simps parse_if.simps
            parse_do.simps parse_guard_list.simps parse_guard_list_loop.simps parse_guard.simps
            Let_def)
         (intro returns_if returns_case_option returns_after_consume returns_after_guard_arrow
         returns_after_expr returns_after_stmt returns_after_assignment expr_returns(1)
         assignment_returns returns_return returns_raise returns_error returns_Some
         returns_call_consume IH;
            linarith)
  }
  {
    case 6
    then show ?case
      by (simp only:
            parse_stmt_list.simps parse_stmt_list_loop.simps parse_stmt.simps parse_if.simps
            parse_do.simps parse_guard_list.simps parse_guard_list_loop.simps parse_guard.simps
            Let_def)
         (intro returns_if returns_case_option returns_after_consume returns_after_guard_arrow
         returns_after_expr returns_after_stmt returns_after_assignment expr_returns(1)
         assignment_returns returns_return returns_raise returns_error returns_Some
         returns_call_consume IH;
            linarith)
  }
  {
    case 7
    then show ?case
      by (simp only:
            parse_stmt_list.simps parse_stmt_list_loop.simps parse_stmt.simps parse_if.simps
            parse_do.simps parse_guard_list.simps parse_guard_list_loop.simps parse_guard.simps
            Let_def)
         (intro returns_if returns_case_option returns_after_consume returns_after_guard_arrow
         returns_after_expr returns_after_stmt returns_after_assignment expr_returns(1)
         assignment_returns returns_return returns_raise returns_error returns_Some
         returns_call_consume IH;
            linarith)
  }
  {
    case 8
    then show ?case
      by (simp only:
            parse_stmt_list.simps parse_stmt_list_loop.simps parse_stmt.simps parse_if.simps
            parse_do.simps parse_guard_list.simps parse_guard_list_loop.simps parse_guard.simps
            Let_def)
         (intro returns_if returns_case_option returns_after_consume returns_after_guard_arrow
         returns_after_expr returns_after_stmt returns_after_assignment expr_returns(1)
         assignment_returns returns_return returns_raise returns_error returns_Some
         returns_call_consume IH;
            linarith)
  }
qed

lemma program_returns:
  assumes "4 + 8 * remaining P \<le> n"
  shows "returns (parse_program R n d P)"
  using assms unfolding parse_program_def
  by (intro returns_if returns_error returns_after_stmt returns_return stmt_returns(1))

text \<open>\<open>parse_tokens\<close> always has a result: its bound is enough for every token list.\<close>

lemma parse_tokens_returns: "parse_tokens R toks \<noteq> None"
proof -
  let ?P = "\<lparr>tokens = toks @ [EOF_token], pos = 0\<rparr>"
  have "4 + 8 * remaining ?P \<le> parse_fuel toks"
    by (simp add: remaining_def parse_fuel_def)
  then have "returns (parse_program R (parse_fuel toks) (recursion_room R) ?P)"
    by (rule program_returns)
  then show ?thesis
    by (auto simp: parse_tokens_def Let_def returns_def split: option.splits sum.splits)
qed

text \<open>
  The result of a parse does not depend on the bound, once there is one, and not on the
  room, unless it is \<open>RecursionError\<close>.
\<close>

lemma parse_program_any_bound:
  assumes "parse_program R n d P = Some v" and "4 + 8 * remaining P \<le> m"
  shows "parse_program R m d P = Some v"
proof (cases "n \<le> m")
  case True
  from program_fuel_mono [OF True] assms(1) show ?thesis by (rule stable_Some)
next
  case False
  then have le: "m \<le> n" by simp
  from program_returns [OF assms(2)] obtain w where w: "parse_program R m d P = Some w"
    by (auto simp: returns_def)
  from stable_Some [OF program_fuel_mono [OF le] w] assms(1) w show ?thesis by simp
qed

section \<open>The room a parse needs\<close>






section \<open>Guard lists are never empty\<close>




















section \<open>Operator precedence\<close>










end
